theory Spec2Isabelle
  imports Complex_Main "HOL-Library.AList" "HOL-Library.Multiset" "HOL-Library.Sublist"
begin

section \<open>JavaScript values used by the reporting code\<close>

text \<open>
  The service in \<^verbatim>\<open>src/script.js\<close> works on loosely typed records decoded from JSON.
  A field that the code tests for truthiness or hands to \<^verbatim>\<open>parseInt\<close> is a
  \<open>jsval\<close>: it may be missing (\<open>Undefined\<close>), \<open>Null\<close>, a string, or a
  Number holding a whole value (\<open>IntV\<close>; identifiers and second counts are whole
  numbers whose decimal notation has no exponent).  HOL equality on \<open>jsval\<close> is the
  SameValueZero comparison of JavaScript \<^verbatim>\<open>Map\<close> keys: the string \<^verbatim>\<open>"5"\<close> and the
  number \<^verbatim>\<open>5\<close> are different keys.
\<close>

datatype jsval = Undefined | Null | IntV int | StrV string

fun truthy :: "jsval \<Rightarrow> bool" where
  "truthy Undefined = False"
| "truthy Null = False"
| "truthy (IntV i) = (i \<noteq> 0)"
| "truthy (StrV s) = (s \<noteq> [])"

text \<open>
  A computed Number is \<open>NaN\<close> or a finite value, kept as a rational.  The addition
  \<open>+\<close> of this type adds finite values exactly and \<open>NaN\<close> absorbs.  The totals of
  \<^verbatim>\<open>processProjectResources\<close> are one running sum over all tasks in input order; they
  are written with \<open>+\<close>, which says which hours are summed and not how the host rounds
  the sum.  The rounded addition of the host is \<open>add64\<close> below.
\<close>

datatype jsnum = NaN | Num rat

instantiation jsnum :: comm_monoid_add
begin

definition zero_jsnum :: jsnum where
  "zero_jsnum = Num 0"

fun plus_jsnum :: "jsnum \<Rightarrow> jsnum \<Rightarrow> jsnum" where
  "plus_jsnum (Num x) (Num y) = Num (x + y)"
| "plus_jsnum NaN _ = NaN"
| "plus_jsnum _ NaN = NaN"

instance
proof
  fix x y z :: jsnum
  show "x + y + z = x + (y + z)"
    by (cases x; cases y; cases z; simp)
  show "x + y = y + x"
    by (cases x; cases y; simp)
  show "0 + x = x"
    unfolding zero_jsnum_def by (cases x; simp)
qed

end

subsection \<open>Rounding to binary64\<close>

text \<open>
  A Number of the host is an IEEE 754 binary64 value, and every arithmetic operation
  returns the exact result rounded to the nearest such value, ties to the even
  significand.  \<open>expo x\<close> is the binary exponent of a positive \<open>x\<close>, the \<open>e\<close> with
  \<^verbatim>\<open>2^e <= x < 2^(e+1)\<close>.  A value with exponent \<open>e\<close> is rounded to a multiple of
  \<^verbatim>\<open>2^(e-52)\<close>, and below the exponent \<^verbatim>\<open>-1022\<close> of the subnormal values to a
  multiple of \<^verbatim>\<open>2^(-1074)\<close>.  The exponent has no upper limit here: a magnitude of
  \<^verbatim>\<open>2^1024\<close> or more, which the host turns into \<^verbatim>\<open>Infinity\<close>, stays finite; and
  the two zeros of binary64 are one value.
\<close>

function expo :: "rat \<Rightarrow> int" where
  "expo x = (if x \<le> 0 then 0
             else if x < 1 then expo (2 * x) - 1
             else if 2 \<le> x then expo (x / 2) + 1
             else 0)"
  by pat_completeness auto
termination
proof (relation "measure (\<lambda>x. if x < 1 then 2 * nat \<lfloor>1 / x\<rfloor> else nat \<lfloor>x\<rfloor>)")
  show "wf (measure (\<lambda>x::rat. if x < 1 then 2 * nat \<lfloor>1 / x\<rfloor> else nat \<lfloor>x\<rfloor>))"
    by simp
next
  fix x :: rat
  assume a: "\<not> x \<le> 0" "x < 1"
  have f1: "1 \<le> \<lfloor>1 / x\<rfloor>"
    using a by (simp add: le_floor_iff)
  have rhs: "(if x < 1 then 2 * nat \<lfloor>1 / x\<rfloor> else nat \<lfloor>x\<rfloor>) = 2 * nat \<lfloor>1 / x\<rfloor>"
    using a by simp
  show "(2 * x, x) \<in> measure (\<lambda>x. if x < 1 then 2 * nat \<lfloor>1 / x\<rfloor> else nat \<lfloor>x\<rfloor>)"
  proof (cases "2 * x < 1")
    case True
    define y where "y = 1 / x"
    have "y < of_int \<lfloor>y\<rfloor> + 1"
      by linarith
    moreover have "(1::rat) \<le> of_int \<lfloor>y\<rfloor>"
      using f1 by (simp add: y_def)
    ultimately have "y / 2 < of_int \<lfloor>y\<rfloor>"
      by linarith
    then have "\<lfloor>y / 2\<rfloor> < \<lfloor>y\<rfloor>"
      by (simp add: floor_less_iff)
    moreover have "1 / (2 * x) = y / 2"
      by (simp add: y_def)
    ultimately have "\<lfloor>1 / (2 * x)\<rfloor> < \<lfloor>1 / x\<rfloor>"
      by (simp only: y_def)
    moreover have "0 \<le> \<lfloor>1 / (2 * x)\<rfloor>"
      using a by simp
    ultimately have "2 * nat \<lfloor>1 / (2 * x)\<rfloor> < 2 * nat \<lfloor>1 / x\<rfloor>"
      by linarith
    moreover have "(if 2 * x < 1 then 2 * nat \<lfloor>1 / (2 * x)\<rfloor> else nat \<lfloor>2 * x\<rfloor>)
        = 2 * nat \<lfloor>1 / (2 * x)\<rfloor>"
      using True by simp
    ultimately show ?thesis
      unfolding in_measure rhs by (simp only:)
  next
    case False
    have "\<lfloor>2 * x\<rfloor> = 1"
      using False a by (simp add: floor_eq_iff)
    then have lhs: "(if 2 * x < 1 then 2 * nat \<lfloor>1 / (2 * x)\<rfloor> else nat \<lfloor>2 * x\<rfloor>) = 1"
      using False by simp
    have "1 < 2 * nat \<lfloor>1 / x\<rfloor>"
      using f1 by linarith
    then show ?thesis
      unfolding in_measure lhs rhs .
  qed
next
  fix x :: rat
  assume a: "\<not> x \<le> 0" "\<not> x < 1" "2 \<le> x"
  have "x < of_int \<lfloor>x\<rfloor> + 1"
    by linarith
  moreover have "(2::rat) \<le> of_int \<lfloor>x\<rfloor>"
    using a by (simp add: le_floor_iff)
  ultimately have "x / 2 < of_int \<lfloor>x\<rfloor>"
    by linarith
  then have "\<lfloor>x / 2\<rfloor> < \<lfloor>x\<rfloor>"
    by (simp add: floor_less_iff)
  moreover have "1 \<le> \<lfloor>x / 2\<rfloor>"
    using a by (simp add: le_floor_iff)
  ultimately show "(x / 2, x) \<in> measure (\<lambda>x. if x < 1 then 2 * nat \<lfloor>1 / x\<rfloor> else nat \<lfloor>x\<rfloor>)"
    using a by simp
qed

declare expo.simps [simp del]

text \<open>The nearest integer, a tie going to the even one.\<close>

definition roundHalfEven :: "rat \<Rightarrow> int" where
  "roundHalfEven m =
     (let f = \<lfloor>m\<rfloor>; d = m - of_int f
      in if d < 1 / 2 then f else if 1 / 2 < d then f + 1 else if even f then f else f + 1)"

definition round64 :: "rat \<Rightarrow> rat" where
  "round64 x =
     (if x = 0 then 0
      else let e = max (expo \<bar>x\<bar>) (- 1022); u = 2 powi (e - 52)
           in of_int (roundHalfEven (x / u)) * u)"

text \<open>\<^verbatim>\<open>a + b\<close> on Numbers of the host.\<close>

fun add64 :: "jsnum \<Rightarrow> jsnum \<Rightarrow> jsnum" where
  "add64 (Num x) (Num y) = Num (round64 (x + y))"
| "add64 NaN _ = NaN"
| "add64 _ NaN = NaN"

text \<open>A running total: \<^verbatim>\<open>total += h\<close> for each element in turn, from \<^verbatim>\<open>0\<close>.\<close>

definition total64 :: "jsnum list \<Rightarrow> jsnum" where
  "total64 hs = foldl add64 (Num 0) hs"

subsection \<open>Number to string\<close>

definition digitChar :: "nat \<Rightarrow> char" where
  "digitChar d = ''0123456789'' ! d"

function natToString :: "nat \<Rightarrow> string" where
  "natToString n = (if n < 10 then [digitChar n] else natToString (n div 10) @ [digitChar (n mod 10)])"
  by pat_completeness auto
termination
  by (relation "measure (\<lambda>n. n)") auto

declare natToString.simps [simp del]

definition intToString :: "int \<Rightarrow> string" where
  "intToString i = (if i < 0 then CHR ''-'' # natToString (nat (- i)) else natToString (nat i))"

text \<open>\<^verbatim>\<open>String(v)\<close>, as a template literal applies it.\<close>

fun toString :: "jsval \<Rightarrow> string" where
  "toString Undefined = ''undefined''"
| "toString Null = ''null''"
| "toString (IntV i) = intToString i"
| "toString (StrV s) = s"

text \<open>The string of a \<^verbatim>\<open>parseInt\<close> result (\<open>None\<close> is \<open>NaN\<close>).\<close>

fun numToString :: "int option \<Rightarrow> string" where
  "numToString None = ''NaN''"
| "numToString (Some i) = intToString i"

text \<open>The number that a string of decimal digits denotes.\<close>

definition digitsToNat :: "string \<Rightarrow> nat" where
  "digitsToNat ds = foldl (\<lambda>a c. 10 * a + (of_char c - 48)) 0 ds"

subsection \<open>\<^verbatim>\<open>parseInt\<close>, \<^verbatim>\<open>trim\<close>, \<^verbatim>\<open>includes\<close>\<close>

text \<open>
  \<^verbatim>\<open>parseInt(string)\<close> without a radix: leading white space is skipped, then an
  optional sign, then an optional \<^verbatim>\<open>0x\<close> prefix selecting radix 16, then the longest run
  of digits of the radix; no digit at all gives \<open>NaN\<close>, written \<open>None\<close>.  Strings
  are byte strings here, so only the ASCII white space characters are recognised.
\<close>

definition isSpace :: "char \<Rightarrow> bool" where
  "isSpace c = (c \<in> set [CHR 0x09, CHR 0x0A, CHR 0x0B, CHR 0x0C, CHR 0x0D, CHR 0x20])"

definition digitVal :: "char \<Rightarrow> nat option" where
  "digitVal c =
     (let n = (of_char c :: nat) in
      if 48 \<le> n \<and> n \<le> 57 then Some (n - 48)
      else if 97 \<le> n \<and> n \<le> 102 then Some (n - 87)
      else if 65 \<le> n \<and> n \<le> 70 then Some (n - 55)
      else None)"

definition isDigitOf :: "nat \<Rightarrow> char \<Rightarrow> bool" where
  "isDigitOf radix c = (case digitVal c of None \<Rightarrow> False | Some d \<Rightarrow> d < radix)"

definition digitsValue :: "nat \<Rightarrow> string \<Rightarrow> nat" where
  "digitsValue radix ds = foldl (\<lambda>acc c. acc * radix + (case digitVal c of None \<Rightarrow> 0 | Some d \<Rightarrow> d)) 0 ds"

definition parseIntStr :: "string \<Rightarrow> int option" where
  "parseIntStr s =
     (let s1 = dropWhile isSpace s;
          neg = (s1 \<noteq> [] \<and> hd s1 = CHR ''-'');
          s2 = (if s1 \<noteq> [] \<and> (hd s1 = CHR ''-'' \<or> hd s1 = CHR ''+'') then tl s1 else s1);
          hex = (length s2 \<ge> 2 \<and> hd s2 = CHR ''0'' \<and> (hd (tl s2) = CHR ''x'' \<or> hd (tl s2) = CHR ''X''));
          radix = (if hex then 16 else 10);
          s3 = (if hex then tl (tl s2) else s2);
          ds = takeWhile (isDigitOf radix) s3
      in if ds = [] then None
         else Some ((if neg then - 1 else 1) * int (digitsValue radix ds)))"

fun parseInt :: "jsval \<Rightarrow> int option" where
  "parseInt (StrV s) = parseIntStr s"
| "parseInt (IntV i) = Some i"
| "parseInt Undefined = None"
| "parseInt Null = None"

text \<open>\<^verbatim>\<open>seconds / 3600\<close> on a \<^verbatim>\<open>parseInt\<close> result.\<close>

fun div3600 :: "int option \<Rightarrow> jsnum" where
  "div3600 None = NaN"
| "div3600 (Some n) = Num (of_int n / 3600)"

text \<open>
  The same quotient as the host computes it: the integer that \<^verbatim>\<open>parseInt\<close> read is
  a binary64 value, and so is the quotient.
\<close>

fun hours64 :: "int option \<Rightarrow> jsnum" where
  "hours64 None = NaN"
| "hours64 (Some n) = Num (round64 (round64 (of_int n) / 3600))"

definition trim :: "string \<Rightarrow> string" where
  "trim s = rev (dropWhile isSpace (rev (dropWhile isSpace s)))"

text \<open>\<^verbatim>\<open>a || ''\<close> for a string field that may be absent.\<close>

fun orEmpty :: "string option \<Rightarrow> string" where
  "orEmpty None = []"
| "orEmpty (Some s) = s"

fun str_includes :: "string \<Rightarrow> string \<Rightarrow> bool" where
  "str_includes [] p = (p = [])"
| "str_includes (c # cs) p = (prefix p (c # cs) \<or> str_includes cs p)"

subsection \<open>\<^verbatim>\<open>Array.prototype.sort\<close>\<close>

text \<open>
  \<^verbatim>\<open>sort\<close> with a comparison function is a stable sort.  For a comparison function
  that orders its arguments consistently the result is determined: it is the one that
  stable insertion produces.
\<close>

fun js_insort :: "('a \<Rightarrow> 'a \<Rightarrow> int) \<Rightarrow> 'a \<Rightarrow> 'a list \<Rightarrow> 'a list" where
  "js_insort cmp x [] = [x]"
| "js_insort cmp x (y # ys) = (if cmp x y \<le> 0 then x # y # ys else y # js_insort cmp x ys)"

definition js_sort :: "('a \<Rightarrow> 'a \<Rightarrow> int) \<Rightarrow> 'a list \<Rightarrow> 'a list" where
  "js_sort cmp xs = foldr (js_insort cmp) xs []"

section \<open>Data model\<close>

text \<open>
  Records decoded from the remote service.  \<open>t_id\<close> is \<^verbatim>\<open>task.id\<close>; \<open>groupName\<close> is
  \<^verbatim>\<open>task.group.name\<close> when \<^verbatim>\<open>task.group\<close> exists and the name is non-empty.
\<close>

record task =
  t_id :: jsval
  title :: "string option"
  groupId :: jsval
  groupName :: "string option"
  parentId :: jsval
  responsibleId :: jsval
  timeEstimate :: jsval
  timeSpentInLogs :: jsval

record user =
  ID :: jsval
  NAME :: "string option"
  LAST_NAME :: "string option"

record project =
  P_ID :: jsval
  P_NAME :: string

text \<open>
  One record for every report row.  A field that a row object does not carry is
  \<open>Undefined\<close>, \<open>None\<close> or \<open>False\<close> (an absent flag is falsy).
\<close>

record reportRow =
  projectId :: jsval
  projectName :: string
  taskId :: jsval
  taskTitle :: string
  subtaskTitle :: "string option"
  userId :: jsval
  userName :: string
  actualHours :: jsnum
  plannedHours :: jsnum
  level :: "nat option"
  isSummary :: bool
  isProjectTotal :: bool

text \<open>The labels of the source, as UTF-8 bytes.\<close>

definition label_unassigned :: string where
  "label_unassigned = [CHR 0xD0, CHR 0x9D, CHR 0xD0, CHR 0xB5, CHR 0x20, CHR 0xD0, CHR 0xBD, CHR 0xD0, CHR 0xB0,
     CHR 0xD0, CHR 0xB7, CHR 0xD0, CHR 0xBD, CHR 0xD0, CHR 0xB0, CHR 0xD1, CHR 0x87, CHR 0xD0, CHR 0xB5,
     CHR 0xD0, CHR 0xBD]"

definition label_untitled :: string where
  "label_untitled = [CHR 0xD0, CHR 0x91, CHR 0xD0, CHR 0xB5, CHR 0xD0, CHR 0xB7, CHR 0x20, CHR 0xD0, CHR 0xBD,
     CHR 0xD0, CHR 0xB0, CHR 0xD0, CHR 0xB7, CHR 0xD0, CHR 0xB2, CHR 0xD0, CHR 0xB0, CHR 0xD0, CHR 0xBD,
     CHR 0xD0, CHR 0xB8, CHR 0xD1, CHR 0x8F]"

definition label_summary :: string where
  "label_summary = [CHR 0xD0, CHR 0xA1, CHR 0xD1, CHR 0x83, CHR 0xD0, CHR 0xBC, CHR 0xD0, CHR 0xBC, CHR 0xD0,
     CHR 0xB0, CHR 0x20, CHR 0xD0, CHR 0xBF, CHR 0xD0, CHR 0xBE, CHR 0x20, CHR 0xD0, CHR 0xB2, CHR 0xD1,
     CHR 0x81, CHR 0xD0, CHR 0xB5, CHR 0xD0, CHR 0xBC, CHR 0x20, CHR 0xD0, CHR 0xB7, CHR 0xD0, CHR 0xB0,
     CHR 0xD0, CHR 0xB4, CHR 0xD0, CHR 0xB0, CHR 0xD1, CHR 0x87, CHR 0xD0, CHR 0xB0, CHR 0xD0, CHR 0xBC]"

definition label_project_total :: string where
  "label_project_total = [CHR 0xD0, CHR 0x98, CHR 0xD0, CHR 0xA2, CHR 0xD0, CHR 0x9E, CHR 0xD0, CHR 0x93,
     CHR 0xD0, CHR 0x9E, CHR 0x20, CHR 0xD0, CHR 0x9F, CHR 0xD0, CHR 0x9E, CHR 0x20, CHR 0xD0, CHR 0x9F,
     CHR 0xD0, CHR 0xA0, CHR 0xD0, CHR 0x9E, CHR 0xD0, CHR 0x95, CHR 0xD0, CHR 0x9A, CHR 0xD0, CHR 0xA2,
     CHR 0xD0, CHR 0xA3]"

definition label_level :: string where
  "label_level = [CHR 0xD0, CHR 0xA3, CHR 0xD1, CHR 0x80, CHR 0xD0, CHR 0xBE, CHR 0xD0, CHR 0xB2, CHR 0xD0,
     CHR 0xB5, CHR 0xD0, CHR 0xBD, CHR 0xD1, CHR 0x8C, CHR 0x20]"

definition label_project :: string where
  "label_project = [CHR 0xD0, CHR 0x9F, CHR 0xD1, CHR 0x80, CHR 0xD0, CHR 0xBE, CHR 0xD0, CHR 0xB5, CHR 0xD0,
     CHR 0xBA, CHR 0xD1, CHR 0x82, CHR 0x20]"

text \<open>
  \<^verbatim>\<open>userMap\<close>: a \<^verbatim>\<open>Map\<close> from \<^verbatim>\<open>parseInt(user.ID)\<close> to the user; a later user
  with the same key replaces an earlier one.  Only lookups are made, so the map is a
  function.
\<close>

definition buildUserMap :: "user list \<Rightarrow> (int option \<rightharpoonup> user)" where
  "buildUserMap users = foldl (\<lambda>m u. m(parseInt (ID u) \<mapsto> u)) Map.empty users"

text \<open>The display name of the user found by \<^verbatim>\<open>userMap.get\<close>.\<close>

definition displayName :: "user option \<Rightarrow> string" where
  "displayName u =
     (case u of
        Some usr \<Rightarrow> trim (orEmpty (NAME usr) @ '' '' @ orEmpty (LAST_NAME usr))
      | None \<Rightarrow> label_unassigned)"

text \<open>\<^verbatim>\<open>task.title || label\<close>, the label being \<open>label_untitled\<close>.\<close>

definition titleOf :: "task \<Rightarrow> string" where
  "titleOf t = (case title t of Some s \<Rightarrow> (if s = [] then label_untitled else s) | None \<Rightarrow> label_untitled)"

section \<open>The project resource tree: \<^verbatim>\<open>processProjectResources\<close>\<close>

text \<open>Derived hours of a task, lines 731 to 736 of \<^verbatim>\<open>src/script.js\<close>.\<close>

definition resActualHours :: "task \<Rightarrow> jsnum" where
  "resActualHours t =
     (if truthy (timeSpentInLogs t) \<and> parseInt (timeSpentInLogs t) \<noteq> None
      then div3600 (parseInt (timeSpentInLogs t)) else 0)"

definition resPlannedHours :: "task \<Rightarrow> jsnum" where
  "resPlannedHours t =
     (if truthy (timeEstimate t) \<and> parseInt (timeEstimate t) \<noteq> None
      then div3600 (parseInt (timeEstimate t)) else 0)"

text \<open>
  An entry of \<^verbatim>\<open>taskMap\<close>: the task with its children, derived hours and level.  The
  node objects are shared between \<^verbatim>\<open>taskMap\<close>, the \<^verbatim>\<open>children\<close> arrays and
  \<^verbatim>\<open>hierarchy\<close>; each is the value of exactly one key, so the model keeps the nodes
  in the map (an association list in insertion order) and refers to them by key.
\<close>

record node =
  n_task :: task
  children :: "jsval list"
  n_actualHours :: jsnum
  n_plannedHours :: jsnum
  n_level :: nat

type_synonym taskMap = "(jsval \<times> node) list"

text \<open>The body of \<^verbatim>\<open>tasks.forEach\<close>: state is \<^verbatim>\<open>taskMap\<close> and the two totals.\<close>

definition addTaskNode :: "taskMap \<times> jsnum \<times> jsnum \<Rightarrow> task \<Rightarrow> taskMap \<times> jsnum \<times> jsnum" where
  "addTaskNode st t =
     (case st of (tm, projectTotalActual, projectTotalPlanned) \<Rightarrow>
        (AList.update (t_id t)
           \<lparr>n_task = t, children = [], n_actualHours = resActualHours t,
            n_plannedHours = resPlannedHours t, n_level = 0\<rparr> tm,
         projectTotalActual + resActualHours t,
         projectTotalPlanned + resPlannedHours t))"

text \<open>
  The body of the loop over \<^verbatim>\<open>taskMap.values()\<close>: state is the map and
  \<^verbatim>\<open>hierarchy\<close> (the keys of the roots).
\<close>

definition linkNode :: "taskMap \<times> jsval list \<Rightarrow> jsval \<Rightarrow> taskMap \<times> jsval list" where
  "linkNode st k =
     (case st of (tm, hierarchy) \<Rightarrow>
        (case map_of tm k of
           None \<Rightarrow> (tm, hierarchy)
         | Some nd \<Rightarrow>
             (if \<not> truthy (parentId (n_task nd)) \<or> map_of tm (parentId (n_task nd)) = None
              then (tm, hierarchy @ [k])
              else (case map_of tm (parentId (n_task nd)) of
                      None \<Rightarrow> (tm, hierarchy)
                    | Some parent \<Rightarrow>
                        (AList.map_entry k (\<lambda>n. n\<lparr>n_level := n_level parent + 1\<rparr>)
                           (AList.map_entry (parentId (n_task nd))
                              (\<lambda>p. p\<lparr>children := children p @ [k]\<rparr>) tm),
                         hierarchy)))))"

definition resourceRow :: "(int option \<rightharpoonup> user) \<Rightarrow> node \<Rightarrow> nat \<Rightarrow> reportRow" where
  "resourceRow userMap nd lvl =
     \<lparr>projectId = groupId (n_task nd),
      projectName = (case groupName (n_task nd) of
                       Some g \<Rightarrow> (if g = [] then label_project @ toString (groupId (n_task nd)) else g)
                     | None \<Rightarrow> label_project @ toString (groupId (n_task nd))),
      taskId = t_id (n_task nd),
      taskTitle = titleOf (n_task nd),
      subtaskTitle = Some (if lvl > 0 then label_level @ natToString lvl else []),
      userId = responsibleId (n_task nd),
      userName = displayName (userMap (parseInt (responsibleId (n_task nd)))),
      actualHours = n_actualHours nd,
      plannedHours = n_plannedHours nd,
      level = Some lvl,
      isSummary = False,
      isProjectTotal = False\<rparr>"

text \<open>
  \<^verbatim>\<open>flattenHierarchy(tasks, level)\<close>, with the captured \<^verbatim>\<open>userMap\<close>,
  \<^verbatim>\<open>detailLevel\<close> and node store as arguments.  A key without a node does not occur
  (every key of \<^verbatim>\<open>hierarchy\<close> and of a \<^verbatim>\<open>children\<close> array is a key of the map);
  the model skips it.
\<close>

function flattenHierarchy ::
  "(int option \<rightharpoonup> user) \<Rightarrow> nat \<Rightarrow> taskMap \<Rightarrow> jsval list \<Rightarrow> nat \<Rightarrow> reportRow list" where
  "flattenHierarchy userMap detailLevel tm [] lvl = []"
| "flattenHierarchy userMap detailLevel tm (k # ks) lvl =
     (case map_of tm k of
        None \<Rightarrow> flattenHierarchy userMap detailLevel tm ks lvl
      | Some nd \<Rightarrow>
          (if lvl \<le> detailLevel then [resourceRow userMap nd lvl] else [])
          @ (if children nd \<noteq> [] \<and> lvl < detailLevel
             then flattenHierarchy userMap detailLevel tm (children nd) (lvl + 1) else [])
          @ flattenHierarchy userMap detailLevel tm ks lvl)"
  by pat_completeness auto
termination
  by (relation "measures [\<lambda>(userMap, detailLevel, tm, ks, lvl). detailLevel - lvl,
                          \<lambda>(userMap, detailLevel, tm, ks, lvl). length ks]") auto

definition projectTotalRow :: "project \<Rightarrow> jsnum \<Rightarrow> jsnum \<Rightarrow> reportRow" where
  "projectTotalRow proj projectTotalActual projectTotalPlanned =
     \<lparr>projectId = Undefined,
      projectName = P_NAME proj,
      taskId = Undefined,
      taskTitle = label_project_total,
      subtaskTitle = None,
      userId = Undefined,
      userName = [],
      actualHours = projectTotalActual,
      plannedHours = projectTotalPlanned,
      level = Some 999,
      isSummary = False,
      isProjectTotal = True\<rparr>"

definition totalLast :: "reportRow \<Rightarrow> reportRow \<Rightarrow> int" where
  "totalLast a b =
     (if isProjectTotal a \<and> \<not> isProjectTotal b then 1
      else if \<not> isProjectTotal a \<and> isProjectTotal b then - 1
      else 0)"

text \<open>
  No statement of the \<^verbatim>\<open>try\<close> block can throw on these records, so the \<^verbatim>\<open>catch\<close>
  branch (which returns the empty list) is not part of the model.
\<close>

definition processProjectResources ::
  "task list \<Rightarrow> user list \<Rightarrow> project \<Rightarrow> nat \<Rightarrow> reportRow list" where
  "processProjectResources tasks users proj detailLevel =
     (let userMap = buildUserMap users;
          (tm0, projectTotalActual, projectTotalPlanned) = foldl addTaskNode ([], 0, 0) tasks;
          (tm, hierarchy) = foldl linkNode (tm0, []) (map fst tm0);
          taskList = flattenHierarchy userMap detailLevel tm hierarchy 0
                     @ [projectTotalRow proj projectTotalActual projectTotalPlanned]
      in js_sort totalLast taskList)"

section \<open>Sample inputs\<close>

text \<open>
  A chain of three tasks (1 is the parent of 2, 2 the parent of 3) of project 10,
  all of user 5; the estimate of task 2 is not a number and that of task 3 is empty.
\<close>

definition sampleTask :: "jsval \<Rightarrow> string \<Rightarrow> jsval \<Rightarrow> jsval \<Rightarrow> jsval \<Rightarrow> jsval \<Rightarrow> jsval \<Rightarrow> task" where
  "sampleTask i ttl g p r te ts =
     \<lparr>t_id = i, title = Some ttl, groupId = g, groupName = None, parentId = p,
      responsibleId = r, timeEstimate = te, timeSpentInLogs = ts\<rparr>"

definition chainTasks :: "task list" where
  "chainTasks =
     [sampleTask (IntV 1) ''A'' (IntV 10) Null (IntV 5) (IntV 3600) (StrV ''7200''),
      sampleTask (IntV 2) ''B'' (IntV 10) (IntV 1) (IntV 5) (StrV ''abc'') (StrV ''1800''),
      sampleTask (IntV 3) ''C'' (IntV 10) (IntV 2) (IntV 5) (StrV '''') (StrV ''900'')]"

definition sampleUsers :: "user list" where
  "sampleUsers = [\<lparr>ID = StrV ''5'', NAME = Some ''Ann'', LAST_NAME = Some ''K''\<rparr>]"

definition sampleProject :: project where
  "sampleProject = \<lparr>P_ID = IntV 10, P_NAME = ''Proj''\<rparr>"

text \<open>The node store and the roots that \<^verbatim>\<open>processProjectResources\<close> builds for the chain.\<close>

definition chainStore :: taskMap where
  "chainStore = fst (foldl linkNode (fst (foldl addTaskNode ([], 0, 0) chainTasks), [])
                       (map fst (fst (foldl addTaskNode ([], 0, 0) chainTasks))))"

section \<open>The plan versus fact ledger: \<^verbatim>\<open>processPlanFactData\<close>\<close>

text \<open>
  The entries of \<^verbatim>\<open>userTaskMap\<close> and of the \<^verbatim>\<open>tasks\<close> map inside each of them.
  Both are \<^verbatim>\<open>Map\<close>s, kept as association lists in insertion order.  The hours of a
  task are added to its task entry and to the total of its group, two sums with different
  partners, so every quotient and sum here is rounded as the host rounds it.
\<close>

record taskData =
  td_title :: string
  td_actualHours :: jsnum
  td_plannedHours :: jsnum

record userData =
  ud_projectName :: string
  ud_userName :: string
  ud_tasks :: "(jsval \<times> taskData) list"
  totalActual :: jsnum
  totalPlanned :: jsnum

type_synonym userTaskMap = "(string \<times> userData) list"

text \<open>Derived hours of a task, lines 667 to 675 of \<^verbatim>\<open>src/script.js\<close>.\<close>

definition pfActualHours :: "task \<Rightarrow> jsnum" where
  "pfActualHours t =
     hours64 (if truthy (timeSpentInLogs t) then parseInt (timeSpentInLogs t) else Some 0)"

definition pfPlannedHours :: "task \<Rightarrow> jsnum" where
  "pfPlannedHours t =
     hours64 (if truthy (timeEstimate t) then parseInt (timeEstimate t) else Some 0)"

text \<open>The key \<^verbatim>\<open>`${projectId}-${userId}`\<close> of the group of a task.\<close>

definition groupKey :: "task \<Rightarrow> string" where
  "groupKey t = toString (groupId t) @ ''-'' @ numToString (parseInt (responsibleId t))"

text \<open>
  What the callback of \<^verbatim>\<open>tasks.forEach\<close> does to the group record of the task, once
  that record exists: create the task entry if there is none, then add the hours to the
  entry and to the totals of the group.
\<close>

definition addToGroup :: "task \<Rightarrow> userData \<Rightarrow> userData" where
  "addToGroup t userData =
     (let taskId = t_id t;
          tasks1 = (if map_of (ud_tasks userData) taskId = None
                    then AList.update taskId
                           \<lparr>td_title = titleOf t, td_actualHours = Num 0, td_plannedHours = Num 0\<rparr>
                           (ud_tasks userData)
                    else ud_tasks userData);
          tasks2 = AList.map_entry taskId
                     (\<lambda>taskData. taskData\<lparr>td_actualHours := add64 (td_actualHours taskData) (pfActualHours t),
                                            td_plannedHours := add64 (td_plannedHours taskData) (pfPlannedHours t)\<rparr>)
                     tasks1
      in userData\<lparr>ud_tasks := tasks2,
                  totalActual := add64 (totalActual userData) (pfActualHours t),
                  totalPlanned := add64 (totalPlanned userData) (pfPlannedHours t)\<rparr>)"

text \<open>The callback of \<^verbatim>\<open>tasks.forEach\<close>; \<^verbatim>\<open>projectMap\<close> is keyed by \<^verbatim>\<open>parseInt(project.ID)\<close>.\<close>

definition planFactStep ::
  "(int option \<rightharpoonup> user) \<Rightarrow> (int option \<rightharpoonup> project) \<Rightarrow> userTaskMap \<Rightarrow> task \<Rightarrow> userTaskMap" where
  "planFactStep userMap projectMap userTaskMap t =
     (if \<not> truthy (groupId t) \<or> \<not> truthy (responsibleId t) then userTaskMap
      else
        (let projectId = groupId t;
             userId = parseInt (responsibleId t);
             userName = displayName (userMap userId);
             projectName = (case projectMap (parseInt projectId) of
                              Some p \<Rightarrow> P_NAME p
                            | None \<Rightarrow> label_project @ toString projectId);
             key = toString projectId @ ''-'' @ numToString userId;
             utm1 = (if map_of userTaskMap key = None
                     then AList.update key
                            \<lparr>ud_projectName = projectName, ud_userName = userName, ud_tasks = [],
                             totalActual = Num 0, totalPlanned = Num 0\<rparr> userTaskMap
                     else userTaskMap)
         in AList.map_entry key (addToGroup t) utm1))"

definition planFactGroups ::
  "task list \<Rightarrow> user list \<Rightarrow> (int option \<rightharpoonup> project) \<Rightarrow> userTaskMap" where
  "planFactGroups tasks users projectMap =
     foldl (planFactStep (buildUserMap users) projectMap) [] tasks"

definition detailRow :: "userData \<Rightarrow> taskData \<Rightarrow> reportRow" where
  "detailRow userData taskData =
     \<lparr>projectId = Undefined,
      projectName = ud_projectName userData,
      taskId = Undefined,
      taskTitle = td_title taskData,
      subtaskTitle = None,
      userId = Undefined,
      userName = ud_userName userData,
      actualHours = td_actualHours taskData,
      plannedHours = td_plannedHours taskData,
      level = None,
      isSummary = False,
      isProjectTotal = False\<rparr>"

definition summaryRow :: "userData \<Rightarrow> reportRow" where
  "summaryRow userData =
     \<lparr>projectId = Undefined,
      projectName = ud_projectName userData,
      taskId = Undefined,
      taskTitle = label_summary,
      subtaskTitle = None,
      userId = Undefined,
      userName = ud_userName userData,
      actualHours = totalActual userData,
      plannedHours = totalPlanned userData,
      level = None,
      isSummary = True,
      isProjectTotal = False\<rparr>"

definition detailRows :: "userData \<Rightarrow> reportRow list" where
  "detailRows userData = map (\<lambda>e. detailRow userData (snd e)) (ud_tasks userData)"

text \<open>The rows pushed for one entry of \<^verbatim>\<open>userTaskMap\<close>.\<close>

definition groupRows :: "userData \<Rightarrow> reportRow list" where
  "groupRows userData = detailRows userData @ [summaryRow userData]"

text \<open>
  The comparison function of the final sort.  \<^verbatim>\<open>localeCompare\<close> is the collation of
  the host; it is the parameter \<open>lc\<close>.
\<close>

definition planFactCompare :: "(string \<Rightarrow> string \<Rightarrow> int) \<Rightarrow> reportRow \<Rightarrow> reportRow \<Rightarrow> int" where
  "planFactCompare lc a b =
     (if projectName a \<noteq> projectName b then lc (projectName a) (projectName b)
      else if userName a \<noteq> userName b then lc (userName a) (userName b)
      else if isSummary a \<and> \<not> isSummary b then 1
      else if \<not> isSummary a \<and> isSummary b then - 1
      else lc (taskTitle a) (taskTitle b))"

text \<open>
  As in \<^verbatim>\<open>processProjectResources\<close>, nothing in the \<^verbatim>\<open>try\<close> block throws on these
  records.
\<close>

definition processPlanFactData ::
  "(string \<Rightarrow> string \<Rightarrow> int) \<Rightarrow> task list \<Rightarrow> user list \<Rightarrow> (int option \<rightharpoonup> project) \<Rightarrow> reportRow list" where
  "processPlanFactData lc tasks users projectMap =
     js_sort (planFactCompare lc)
       (concat (map (\<lambda>e. groupRows (snd e)) (planFactGroups tasks users projectMap)))"

text \<open>
  A collation to run examples with: strings compared byte by byte, a proper prefix
  first.
\<close>

fun byteCompare :: "string \<Rightarrow> string \<Rightarrow> int" where
  "byteCompare [] [] = 0"
| "byteCompare [] (y # ys) = - 1"
| "byteCompare (x # xs) [] = 1"
| "byteCompare (x # xs) (y # ys) =
     (if (of_char x :: nat) < of_char y then - 1
      else if (of_char y :: nat) < of_char x then 1
      else byteCompare xs ys)"

text \<open>The tasks that the guard at the head of the callback lets through.\<close>

definition included :: "task \<Rightarrow> bool" where
  "included t = (truthy (groupId t) \<and> truthy (responsibleId t))"

section \<open>Auxiliary notions for the ledger\<close>

text \<open>The tasks of the group with key \<open>k\<close>, in input order.\<close>

definition groupTasks :: "string \<Rightarrow> task list \<Rightarrow> task list" where
  "groupTasks k ts = filter (\<lambda>t. included t \<and> groupKey t = k) ts"

text \<open>The distinct elements of a list, in the order in which they first occur.\<close>

definition firstSeen :: "'a list \<Rightarrow> 'a list" where
  "firstSeen xs = foldl (\<lambda>acc x. if x \<in> set acc then acc else acc @ [x]) [] xs"

text \<open>
  What holds of the record of group \<open>k\<close> once the task list \<open>ts\<close> has been processed:
  its task entries are those of the distinct ids of the tasks of the group, in the order
  in which the ids first occur; the hours of an entry are the running total over the
  tasks of the group with that id, and the totals of the group are the running totals
  over all tasks of the group.
\<close>

definition groupInv :: "task list \<Rightarrow> string \<Rightarrow> userData \<Rightarrow> bool" where
  "groupInv ts k ud =
     (ud_tasks ud \<noteq> []
      \<and> distinct (map fst (ud_tasks ud))
      \<and> fst ` set (ud_tasks ud) = t_id ` {t \<in> set ts. included t \<and> groupKey t = k}
      \<and> map fst (ud_tasks ud) = firstSeen (map t_id (groupTasks k ts))
      \<and> totalActual ud = total64 (map pfActualHours (groupTasks k ts))
      \<and> totalPlanned ud = total64 (map pfPlannedHours (groupTasks k ts))
      \<and> (\<forall>e \<in> set (ud_tasks ud).
            td_actualHours (snd e)
              = total64 (map pfActualHours (filter (\<lambda>t. t_id t = fst e) (groupTasks k ts)))
            \<and> td_plannedHours (snd e)
              = total64 (map pfPlannedHours (filter (\<lambda>t. t_id t = fst e) (groupTasks k ts)))))"

text \<open>The record that \<^verbatim>\<open>userTaskMap.set\<close> stores for the first task of a group.\<close>

definition newGroup :: "(int option \<rightharpoonup> user) \<Rightarrow> (int option \<rightharpoonup> project) \<Rightarrow> task \<Rightarrow> userData" where
  "newGroup um pm t =
     \<lparr>ud_projectName = (case pm (parseInt (groupId t)) of
                          Some p \<Rightarrow> P_NAME p
                        | None \<Rightarrow> label_project @ toString (groupId t)),
      ud_userName = displayName (um (parseInt (responsibleId t))),
      ud_tasks = [], totalActual = Num 0, totalPlanned = Num 0\<rparr>"

text \<open>
  What the sort needs of the collation: it is antisymmetric in its sign and it is
  transitive.  Two different strings may compare equal, as canonically equivalent strings
  do under \<^verbatim>\<open>localeCompare\<close>.
\<close>

definition collationPreorder :: "(string \<Rightarrow> string \<Rightarrow> int) \<Rightarrow> bool" where
  "collationPreorder lc =
     ((\<forall>a b. (lc a b < 0) = (0 < lc b a))
      \<and> (\<forall>a b c. lc a b \<le> 0 \<and> lc b c \<le> 0 \<longrightarrow> lc a c \<le> 0))"

text \<open>
  No two rows have different project names that compare equal, or different user names
  that compare equal.
\<close>

definition namesApart :: "(string \<Rightarrow> string \<Rightarrow> int) \<Rightarrow> reportRow list \<Rightarrow> bool" where
  "namesApart lc rows =
     (\<forall>a \<in> set rows. \<forall>b \<in> set rows.
        (lc (projectName a) (projectName b) = 0 \<longrightarrow> projectName a = projectName b)
        \<and> (lc (userName a) (userName b) = 0 \<longrightarrow> userName a = userName b))"

text \<open>
  The order of the rows in the words of the specification: project name ascending, then
  user name ascending, then detail rows before summary rows, then task title ascending.
\<close>

definition planFactOrder :: "(string \<Rightarrow> string \<Rightarrow> int) \<Rightarrow> reportRow \<Rightarrow> reportRow \<Rightarrow> bool" where
  "planFactOrder lc a b =
     (lc (projectName a) (projectName b) < 0
      \<or> (projectName a = projectName b
          \<and> (lc (userName a) (userName b) < 0
              \<or> (userName a = userName b
                  \<and> ((\<not> isSummary a \<and> isSummary b)
                      \<or> (isSummary a = isSummary b \<and> lc (taskTitle a) (taskTitle b) \<le> 0))))))"

text \<open>
  Three tasks of project 10: task 1 of user 5 (listed twice) and task 2 of user 6; a task
  without a responsible user and one without a project.
\<close>

definition ledgerTasks :: "task list" where
  "ledgerTasks =
     [sampleTask (IntV 1) ''A'' (IntV 10) Null (IntV 5) (IntV 3600) (IntV 7200),
      sampleTask (IntV 2) ''B'' (IntV 10) Null (IntV 6) (IntV 3600) (IntV 1800),
      sampleTask (IntV 1) ''A'' (IntV 10) Null (IntV 5) (IntV 0) (IntV 3600)]"

text \<open>
  Three tasks of user 5 in project 10, of 60, 60 and 180 seconds spent; the first and the
  third have the same id.
\<close>

definition roundingTasks :: "task list" where
  "roundingTasks =
     [sampleTask (IntV 1) ''A'' (IntV 10) Null (IntV 5) (IntV 0) (IntV 60),
      sampleTask (IntV 2) ''B'' (IntV 10) Null (IntV 5) (IntV 0) (IntV 60),
      sampleTask (IntV 1) ''A'' (IntV 10) Null (IntV 5) (IntV 0) (IntV 180)]"

text \<open>A task of user 5 in project 11, and a project map that knows project 10 only.\<close>

definition taskElsewhere :: task where
  "taskElsewhere = sampleTask (IntV 9) ''Z'' (IntV 11) Null (IntV 5) (IntV 3600) (IntV 3600)"

definition sampleProjectMap :: "int option \<rightharpoonup> project" where
  "sampleProjectMap = [Some 10 \<mapsto> sampleProject]"

text \<open>
  A collation with ties: \<open>canonCompare\<close> compares byte strings after composing the
  letter \<^verbatim>\<open>e\<close> with a following combining acute accent, so the two encodings of
  \<^verbatim>\<open>e\<close> with acute accent compare equal.  Two projects named by the two encodings,
  with one task each, of the users Zed and Abe.
\<close>

fun composed :: "string \<Rightarrow> string" where
  "composed (a # b # c # rest) =
     (if a = CHR 0x65 \<and> b = CHR 0xCC \<and> c = CHR 0x81 then CHR 0xC3 # CHR 0xA9 # composed rest
      else a # composed (b # c # rest))"
| "composed s = s"

definition canonCompare :: "string \<Rightarrow> string \<Rightarrow> int" where
  "canonCompare a b = byteCompare (composed a) (composed b)"

definition tieUsers :: "user list" where
  "tieUsers = [\<lparr>ID = StrV ''5'', NAME = Some ''Zed'', LAST_NAME = None\<rparr>,
               \<lparr>ID = StrV ''6'', NAME = Some ''Abe'', LAST_NAME = None\<rparr>]"

definition tieProjects :: "int option \<rightharpoonup> project" where
  "tieProjects = [Some 10 \<mapsto> \<lparr>P_ID = IntV 10, P_NAME = [CHR 0xC3, CHR 0xA9]\<rparr>,
                  Some 11 \<mapsto> \<lparr>P_ID = IntV 11, P_NAME = [CHR 0x65, CHR 0xCC, CHR 0x81]\<rparr>]"

definition tieTasks :: "task list" where
  "tieTasks =
     [sampleTask (IntV 1) ''A'' (IntV 10) Null (IntV 5) (IntV 3600) (IntV 3600),
      sampleTask (IntV 2) ''B'' (IntV 11) Null (IntV 6) (IntV 3600) (IntV 3600)]"

definition taskNoUser :: task where
  "taskNoUser = sampleTask (IntV 7) ''X'' (IntV 10) Null Undefined (IntV 3600) (IntV 3600)"

definition taskNoProject :: task where
  "taskNoProject = sampleTask (IntV 8) ''Y'' Undefined Null (IntV 5) (IntV 3600) (IntV 3600)"

text \<open>\<open>y\<close> comes immediately after \<open>x\<close> in a list.\<close>

fun adjacentIn :: "'a \<Rightarrow> 'a \<Rightarrow> 'a list \<Rightarrow> bool" where
  "adjacentIn x y (a # b # rest) = ((a = x \<and> b = y) \<or> adjacentIn x y (b # rest))"
| "adjacentIn x y [a] = False"
| "adjacentIn x y [] = False"

text \<open>
  The summary row of a group comes immediately after the last of the detail rows of that
  group, in the words of the specification.
\<close>

definition summaryFollowsOwnDetails ::
  "(string \<Rightarrow> string \<Rightarrow> int) \<Rightarrow> reportRow list \<Rightarrow> userData \<Rightarrow> bool" where
  "summaryFollowsOwnDetails lc rows userData =
     adjacentIn (last (js_sort (planFactCompare lc) (detailRows userData))) (summaryRow userData) rows"

section \<open>The API access layer: \<^verbatim>\<open>callMethod\<close> and \<^verbatim>\<open>getTasks\<close>\<close>

text \<open>
  A parameter of a call is a scalar, an object of scalars (\<^verbatim>\<open>filter\<close>, \<^verbatim>\<open>order\<close>) or
  an array of strings (\<^verbatim>\<open>select\<close>).  A parameter object is an association list in
  the insertion order of its keys, which is the order of \<^verbatim>\<open>for ... in\<close>.
\<close>

datatype pval = PScalar jsval | PObject "(string \<times> jsval) list" | PArray "string list"

type_synonym params = "(string \<times> pval) list"

type_synonym query = "(string \<times> string) list"

text \<open>The value of a thrown \<^verbatim>\<open>Error\<close> is its message.\<close>

datatype apiError = ApiError (message: string)

text \<open>
  The entries of \<^verbatim>\<open>filter\<close>: one field \<^verbatim>\<open>filter[KEY]\<close> for each key whose value
  is not undefined, null or the empty string.
\<close>

definition encodeFilter :: "(string \<times> jsval) list \<Rightarrow> query" where
  "encodeFilter obj =
     map (\<lambda>e. (''filter['' @ fst e @ '']'', toString (snd e)))
       (filter (\<lambda>e. snd e \<noteq> Undefined \<and> snd e \<noteq> Null \<and> snd e \<noteq> StrV []) obj)"

text \<open>The entries of \<^verbatim>\<open>select\<close>: one field \<^verbatim>\<open>select[i]\<close> for each element.\<close>

definition encodeSelect :: "string list \<Rightarrow> query" where
  "encodeSelect fs =
     map (\<lambda>e. (''select['' @ natToString (fst e) @ '']'', snd e)) (zip [0 ..< length fs] fs)"

text \<open>
  The body of the loop over the keys of \<^verbatim>\<open>params\<close>, lines 30 to 48: what one key
  appends to \<^verbatim>\<open>urlParams\<close>.  An object or array under a key other than \<^verbatim>\<open>filter\<close>
  and \<^verbatim>\<open>select\<close> appends nothing.  An array under \<^verbatim>\<open>filter\<close> is enumerated by its
  indices; an object under \<^verbatim>\<open>select\<close> has no \<^verbatim>\<open>forEach\<close>, which throws.
\<close>

fun encodeParam :: "string \<Rightarrow> pval \<Rightarrow> apiError + query" where
  "encodeParam key (PScalar v) =
     (if v \<noteq> Undefined \<and> v \<noteq> Null \<and> v \<noteq> StrV [] then Inr [(key, toString v)] else Inr [])"
| "encodeParam key (PObject obj) =
     (if key = ''filter'' then Inr (encodeFilter obj)
      else if key = ''select'' then Inl (ApiError ''params[key].forEach is not a function'')
      else Inr [])"
| "encodeParam key (PArray xs) =
     (if key = ''filter''
      then Inr (encodeFilter (zip (map natToString [0 ..< length xs]) (map StrV xs)))
      else if key = ''select'' then Inr (encodeSelect xs)
      else Inr [])"

fun encodeParams :: "params \<Rightarrow> apiError + query" where
  "encodeParams [] = Inr []"
| "encodeParams ((key, v) # rest) =
     (case encodeParam key v of
        Inl e \<Rightarrow> Inl e
      | Inr q \<Rightarrow> (case encodeParams rest of Inl e \<Rightarrow> Inl e | Inr q' \<Rightarrow> Inr (q @ q')))"

text \<open>
  What the service returns for a call: the \<^verbatim>\<open>result\<close> field of the body when it is
  there, else the body itself.  Only the \<^verbatim>\<open>tasks\<close> field of a result is looked at.
\<close>

datatype apiResult = TaskPage "task list" | OtherResult | WholeBody

text \<open>
  The outcome of one \<^verbatim>\<open>fetch\<close>: \<^verbatim>\<open>fetch\<close> or \<^verbatim>\<open>response.json()\<close> throws
  an error with a message, or a response comes with a status
  that is not ok, or a body comes with its \<^verbatim>\<open>error\<close>, \<^verbatim>\<open>error_description\<close> and
  \<^verbatim>\<open>result\<close> fields.
\<close>

datatype reply =
    Rejected string
  | HttpStatus nat
  | Body "string option" "string option" "apiResult option"

text \<open>
  The remote service: the reply to the \<open>n\<close>-th request made, of a method and query, and
  the time in milliseconds that the request takes.
\<close>

type_synonym network = "nat \<Rightarrow> string \<Rightarrow> query \<Rightarrow> reply \<times> nat"

text \<open>
  The state of the service object and of the host: the clock (\<^verbatim>\<open>Date.now()\<close>), the
  number of requests made, \<^verbatim>\<open>rateLimit.lastCall\<close> and the cache.
\<close>

record svc =
  clock :: int
  requests :: nat
  lastCall :: int
  cache :: "string \<rightharpoonup> apiResult \<times> int"

text \<open>\<^verbatim>\<open>a || b\<close> on optional strings; the empty string is falsy.\<close>

fun orElse :: "string option \<Rightarrow> string option \<Rightarrow> string option" where
  "orElse (Some a) b = (if a = [] then b else Some a)"
| "orElse None b = b"

text \<open>Lines 15 to 20: the payload of a cache entry younger than five minutes.\<close>

definition cacheLookup :: "string \<Rightarrow> svc \<Rightarrow> apiResult option" where
  "cacheLookup cacheKey s =
     (case cache s cacheKey of
        Some cached \<Rightarrow> if clock s - snd cached < 300000 then Some (fst cached) else None
      | None \<Rightarrow> None)"

text \<open>Lines 22 to 25: wait until a second has passed since the last call.\<close>

definition rateLimitWait :: "svc \<Rightarrow> svc" where
  "rateLimitWait s =
     (if clock s - lastCall s < 1000 then s\<lparr>clock := clock s + (1000 - (clock s - lastCall s))\<rparr>
      else s)"

text \<open>
  Lines 60 to 72: what a reply leads to, an error to throw or the result.  A status that
  is not ok throws; a body with a truthy \<^verbatim>\<open>error\<close> throws with the description when
  there is one, else with the error code.
\<close>

fun replyOutcome :: "reply \<Rightarrow> apiError + apiResult" where
  "replyOutcome (Rejected msg) = Inl (ApiError msg)"
| "replyOutcome (HttpStatus st) = Inl (ApiError (''HTTP error! status: '' @ natToString st))"
| "replyOutcome (Body err descr res) =
     (case orElse err None of
        Some e \<Rightarrow> Inl (ApiError (case orElse descr (Some e) of Some m \<Rightarrow> m | None \<Rightarrow> e))
      | None \<Rightarrow> Inr (case res of Some r \<Rightarrow> r | None \<Rightarrow> WholeBody))"

text \<open>
  The \<^verbatim>\<open>try\<close> block, lines 27 to 79.  \<open>now\<close> is the time read at the head of
  \<^verbatim>\<open>callMethod\<close>.  The request is named by the method and the query; the base address
  is fixed.  Only the success path writes \<^verbatim>\<open>rateLimit.lastCall\<close> and the cache.
\<close>

definition tryRequest ::
  "network \<Rightarrow> string \<Rightarrow> string \<Rightarrow> params \<Rightarrow> int \<Rightarrow> svc \<Rightarrow> (apiError + apiResult) \<times> svc" where
  "tryRequest net cacheKey method ps now s =
     (case encodeParams ps of
        Inl e \<Rightarrow> (Inl e, s)
      | Inr q \<Rightarrow>
          (let s1 = s\<lparr>clock := clock s + int (snd (net (requests s) method q)),
                      requests := requests s + 1\<rparr>
           in case replyOutcome (fst (net (requests s) method q)) of
                Inl e \<Rightarrow> (Inl e, s1)
              | Inr result \<Rightarrow>
                  (Inr result,
                   s1\<lparr>lastCall := clock s1, cache := (cache s1)(cacheKey \<mapsto> (result, now))\<rparr>)))"

text \<open>A reply that makes \<^verbatim>\<open>callMethod\<close> wait and call again.\<close>

definition quotaFailure :: "reply \<Rightarrow> bool" where
  "quotaFailure r =
     (case replyOutcome r of
        Inl e \<Rightarrow> str_includes (message e) ''QUERY_LIMIT_EXCEEDED''
      | Inr res \<Rightarrow> False)"

text \<open>
  \<^verbatim>\<open>callMethod\<close>.  \<^verbatim>\<open>JSON.stringify\<close> is the parameter \<open>stringify\<close>.  The retry
  after a quota error calls \<^verbatim>\<open>callMethod\<close> again without a bound, so the function may
  not return: \<open>None\<close> is that case.
\<close>

partial_function (option) callMethod ::
  "(params \<Rightarrow> string) \<Rightarrow> network \<Rightarrow> string \<Rightarrow> params \<Rightarrow> svc \<Rightarrow> ((apiError + apiResult) \<times> svc) option" where
  "callMethod stringify net method ps s =
     (case cacheLookup (method @ ''-'' @ stringify ps) s of
        Some cached \<Rightarrow> Some (Inr cached, s)
      | None \<Rightarrow>
          (case tryRequest net (method @ ''-'' @ stringify ps) method ps (clock s) (rateLimitWait s) of
             (Inr result, s') \<Rightarrow> Some (Inr result, s')
           | (Inl e, s') \<Rightarrow>
               if str_includes (message e) ''QUERY_LIMIT_EXCEEDED''
               then callMethod stringify net method ps (s'\<lparr>clock := clock s' + 2000\<rparr>)
               else Some (Inl e, s')))"

text \<open>The default field selection of \<^verbatim>\<open>getTasks\<close>.\<close>

definition selectFields :: "string list" where
  "selectFields =
     [''ID'', ''TITLE'', ''GROUP_ID'', ''PARENT_ID'', ''RESPONSIBLE_ID'', ''TIME_ESTIMATE'',
      ''CREATED_DATE'', ''TIME_SPENT_IN_LOGS'', ''STATUS'', ''CLOSED_DATE'', ''DEADLINE'']"

fun pTruthy :: "pval \<Rightarrow> bool" where
  "pTruthy (PScalar v) = truthy v"
| "pTruthy (PObject obj) = True"
| "pTruthy (PArray xs) = True"

text \<open>
  The parameter object of one page request, lines 116 to 122: the caller's parameters with
  \<^verbatim>\<open>start\<close>, \<^verbatim>\<open>filter\<close>, \<^verbatim>\<open>select\<close> and \<^verbatim>\<open>order\<close> set in this order.  Setting
  a key that exists keeps its place.
\<close>

definition tasksRequest :: "params \<Rightarrow> nat \<Rightarrow> params" where
  "tasksRequest ps start =
     AList.update ''order'' (PObject [(''ID'', StrV ''ASC'')])
       (AList.update ''select''
          (case map_of ps ''select'' of
             Some v \<Rightarrow> if pTruthy v then v else PArray selectFields
           | None \<Rightarrow> PArray selectFields)
          (AList.update ''filter''
             (case map_of ps ''filter'' of
                Some v \<Rightarrow> if pTruthy v then v else PObject []
              | None \<Rightarrow> PObject [])
             (AList.update ''start'' (PScalar (IntV (int start))) ps)))"

text \<open>
  The loop of \<^verbatim>\<open>getTasks\<close>, lines 115 to 141, from offset \<open>start\<close> with the tasks
  collected so far.  \<open>call\<close> is \<^verbatim>\<open>this.callMethod\<close> applied to the method name: it
  takes the parameters and the state and gives the result or the error with the new
  state, or \<open>None\<close> when it does not return.  An error of \<^verbatim>\<open>callMethod\<close> leaves the
  loop as it is thrown.
\<close>

function getTasksLoop ::
  "(params \<Rightarrow> 's \<Rightarrow> ((apiError + apiResult) \<times> 's) option) \<Rightarrow> params \<Rightarrow> nat \<Rightarrow> task list \<Rightarrow> 's
     \<Rightarrow> ((apiError + task list) \<times> 's) option" where
  "getTasksLoop call ps start allTasks s =
     (case call (tasksRequest ps start) s of
        None \<Rightarrow> None
      | Some (Inl e, s') \<Rightarrow> Some (Inl e, s')
      | Some (Inr result, s') \<Rightarrow>
          (case result of
             TaskPage page \<Rightarrow>
               if length page < 50 then Some (Inr (allTasks @ page), s')
               else if start + 50 \<ge> 1000 then Some (Inr (allTasks @ page), s')
               else getTasksLoop call ps (start + 50) (allTasks @ page) s'
           | OtherResult \<Rightarrow> Some (Inr allTasks, s')
           | WholeBody \<Rightarrow> Some (Inr allTasks, s')))"
  by pat_completeness auto
termination
  by (relation "measure (\<lambda>(call, ps, start, allTasks, s). 1000 - start)") auto

declare getTasksLoop.simps [simp del]

definition getTasks ::
  "(params \<Rightarrow> string) \<Rightarrow> network \<Rightarrow> params \<Rightarrow> svc \<Rightarrow> ((apiError + task list) \<times> svc) option" where
  "getTasks stringify net ps s =
     getTasksLoop (callMethod stringify net ''tasks.task.list'') ps 0 [] s"

text \<open>
  A service that holds a fixed list of tasks and serves it in pages of 50 from the offset
  \<^verbatim>\<open>start\<close> of the request; its state is the list of the offsets asked for so far.
\<close>

definition startOf :: "params \<Rightarrow> nat" where
  "startOf req = (case map_of req ''start'' of Some (PScalar (IntV i)) \<Rightarrow> nat i | _ \<Rightarrow> 0)"

definition pagedService ::
  "task list \<Rightarrow> params \<Rightarrow> nat list \<Rightarrow> ((apiError + apiResult) \<times> nat list) option" where
  "pagedService db req asked =
     Some (Inr (TaskPage (take 50 (drop (startOf req) db))), asked @ [startOf req])"

text \<open>
  A service that answers the first two requests with a quota error and the third with a
  result, each after 100 milliseconds; a stand-in for \<^verbatim>\<open>JSON.stringify\<close>; and a state
  with an empty cache.
\<close>

definition quotaNet :: network where
  "quotaNet n method q =
     (if n < 2 then (Body (Some ''QUERY_LIMIT_EXCEEDED'') None None, 100)
      else (Body None None (Some OtherResult), 100))"

definition keysOnly :: "params \<Rightarrow> string" where
  "keysOnly ps = concat (map (\<lambda>e. fst e @ '';'') ps)"

definition freshSvc :: svc where
  "freshSvc = \<lparr>clock = 5000, requests = 0, lastCall = 0, cache = Map.empty\<rparr>"

section \<open>The date range resolver: \<^verbatim>\<open>getDateRange\<close>\<close>

text \<open>
  A \<^verbatim>\<open>Date\<close> is its time value: milliseconds since the epoch, in UTC.  The host gives
  the current time and the offset of its local time from UTC (positive east of Greenwich;
  taken as constant, so daylight saving changes are not modelled).
\<close>

definition msPerDay :: int where
  "msPerDay = 86400000"

record host =
  h_now :: int
  h_tza :: int

text \<open>The day number of a date of the proleptic Gregorian calendar (month 1 to 12), and back.\<close>

definition daysFromCivil :: "int \<Rightarrow> int \<Rightarrow> int \<Rightarrow> int" where
  "daysFromCivil y m d =
     (let y' = (if m \<le> 2 then y - 1 else y);
          era = y' div 400;
          yoe = y' - era * 400;
          doy = (153 * ((m + 9) mod 12) + 2) div 5 + d - 1;
          doe = yoe * 365 + yoe div 4 - yoe div 100 + doy
      in era * 146097 + doe - 719468)"

definition civilFromDays :: "int \<Rightarrow> int \<times> int \<times> int" where
  "civilFromDays z =
     (let z' = z + 719468;
          era = z' div 146097;
          doe = z' - era * 146097;
          yoe = (doe - doe div 1460 + doe div 36524 - doe div 146096) div 365;
          doy = doe - (365 * yoe + yoe div 4 - yoe div 100);
          mp = (5 * doy + 2) div 153;
          d = doy - (153 * mp + 2) div 5 + 1;
          m = (if mp < 10 then mp + 3 else mp - 9)
      in ((if m \<le> 2 then yoe + era * 400 + 1 else yoe + era * 400), m, d))"

text \<open>\<^verbatim>\<open>getFullYear\<close>, \<^verbatim>\<open>getMonth\<close> and \<^verbatim>\<open>getDate\<close> read the local calendar.\<close>

definition getFullYear :: "host \<Rightarrow> int \<Rightarrow> int" where
  "getFullYear h t = fst (civilFromDays ((t + h_tza h) div msPerDay))"

definition getMonth :: "host \<Rightarrow> int \<Rightarrow> int" where
  "getMonth h t = fst (snd (civilFromDays ((t + h_tza h) div msPerDay))) - 1"

definition getDate :: "host \<Rightarrow> int \<Rightarrow> int" where
  "getDate h t = snd (snd (civilFromDays ((t + h_tza h) div msPerDay)))"

text \<open>
  \<^verbatim>\<open>new Date(year, monthIndex, day)\<close>: midnight of that local date, as a time value.
  A month index beyond 11 carries into the year, and day 0 is the day before the first.
\<close>

definition makeDay :: "int \<Rightarrow> int \<Rightarrow> int \<Rightarrow> int" where
  "makeDay y monthIndex d = daysFromCivil (y + monthIndex div 12) (monthIndex mod 12 + 1) 1 + d - 1"

definition newDate :: "host \<Rightarrow> int \<Rightarrow> int \<Rightarrow> int \<Rightarrow> int" where
  "newDate h y monthIndex d = makeDay y monthIndex d * msPerDay - h_tza h"

text \<open>\<^verbatim>\<open>date.setDate(d)\<close>: the local day of the month is replaced, the time of day kept.\<close>

definition setDate :: "host \<Rightarrow> int \<Rightarrow> int \<Rightarrow> int" where
  "setDate h t d =
     makeDay (getFullYear h t) (getMonth h t) d * msPerDay + (t + h_tza h) mod msPerDay - h_tza h"

definition padZero :: "nat \<Rightarrow> string \<Rightarrow> string" where
  "padZero n s = replicate (n - length s) CHR ''0'' @ s"

text \<open>\<^verbatim>\<open>date.toISOString().split('T')[0]\<close>: the calendar date of the time value in UTC.\<close>

definition formatDate :: "int \<Rightarrow> string" where
  "formatDate t =
     (case civilFromDays (t div msPerDay) of
        (y, m, d) \<Rightarrow>
          (if 0 \<le> y \<and> y \<le> 9999 then padZero 4 (natToString (nat y))
           else (if y < 0 then ''-'' else ''+'') @ padZero 6 (natToString (nat \<bar>y\<bar>)))
          @ ''-'' @ padZero 2 (natToString (nat m)) @ ''-'' @ padZero 2 (natToString (nat d)))"

text \<open>
  \<^verbatim>\<open>getDateRange\<close>.  A custom bound is the time value that \<^verbatim>\<open>new Date(bound)\<close>
  denotes, or absent.
\<close>

definition getDateRange :: "host \<Rightarrow> string \<Rightarrow> int option \<Rightarrow> int option \<Rightarrow> string \<times> string" where
  "getDateRange h period customFrom customTo =
     (let now = h_now h;
          range =
            (if period = ''week'' then (setDate h now (getDate h now - 7), now)
             else if period = ''month'' then
               (newDate h (getFullYear h now) (getMonth h now) 1,
                newDate h (getFullYear h now) (getMonth h now + 1) 0)
             else if period = ''quarter'' then
               (let quarter = getMonth h now div 3
                in (newDate h (getFullYear h now) (quarter * 3) 1,
                    newDate h (getFullYear h now) ((quarter + 1) * 3) 0))
             else if period = ''year'' then
               (newDate h (getFullYear h now) 0 1, newDate h (getFullYear h now) 11 31)
             else if period = ''custom'' then
               ((case customFrom of Some t \<Rightarrow> t | None \<Rightarrow> now),
                (case customTo of Some t \<Rightarrow> t | None \<Rightarrow> now))
             else (setDate h now (getDate h now - 30), now))
      in (formatDate (fst range), formatDate (snd range)))"

text \<open>
  Noon of 15 January 2024 on a host three hours east of UTC, and the same local time on a
  host at UTC.
\<close>

definition moscowNoon :: host where
  "moscowNoon = \<lparr>h_now = 1705309200000, h_tza = 10800000\<rparr>"

definition utcNoon :: host where
  "utcNoon = \<lparr>h_now = 1705320000000, h_tza = 0\<rparr>"

section \<open>Properties of the report functions\<close>

subsection \<open>Evaluation rules\<close>

lemmas js_eval =
  parseIntStr_def isSpace_def isDigitOf_def digitVal_def digitsValue_def intToString_def
  natToString.simps digitChar_def trim_def zero_jsnum_def

lemmas res_eval =
  processProjectResources_def buildUserMap_def addTaskNode_def linkNode_def resourceRow_def
  projectTotalRow_def totalLast_def js_sort_def resActualHours_def resPlannedHours_def
  displayName_def titleOf_def

lemmas sample_eval = chainTasks_def sampleTask_def sampleUsers_def sampleProject_def

subsection \<open>The resource tree\<close>

lemma foldl_addTaskNode_totals:
  "snd (foldl addTaskNode (tm, a, p) ts)
     = (a + sum_list (map resActualHours ts), p + sum_list (map resPlannedHours ts))"
proof (induction ts arbitrary: tm a p)
  case Nil
  show ?case by simp
next
  case (Cons t ts)
  have "addTaskNode (tm, a, p) t
      = (AList.update (t_id t)
           \<lparr>n_task = t, children = [], n_actualHours = resActualHours t,
            n_plannedHours = resPlannedHours t, n_level = 0\<rparr> tm,
         a + resActualHours t, p + resPlannedHours t)"
    by (simp add: addTaskNode_def)
  then show ?case
    by (simp only: foldl_Cons Cons.IH list.map sum_list.Cons add.assoc)
qed

lemma flattenHierarchy_rows:
  "r \<in> set (flattenHierarchy um dl tm ks lvl) \<Longrightarrow>
     \<not> isProjectTotal r \<and> (\<exists>l. level r = Some l \<and> lvl \<le> l \<and> l \<le> dl)"
proof (induction um dl tm ks lvl rule: flattenHierarchy.induct)
  case (1 um dl tm lvl)
  then show ?case by simp
next
  case (2 um dl tm k ks lvl)
  show ?case
  proof (cases "map_of tm k")
    case None
    with 2 show ?thesis by simp
  next
    case (Some nd)
    with "2.prems" consider
        (own) "lvl \<le> dl" "r = resourceRow um nd lvl"
      | (sub) "children nd \<noteq> []" "lvl < dl"
              "r \<in> set (flattenHierarchy um dl tm (children nd) (lvl + 1))"
      | (rest) "r \<in> set (flattenHierarchy um dl tm ks lvl)"
      by (auto split: if_splits)
    then show ?thesis
    proof cases
      case own
      then show ?thesis by (simp add: resourceRow_def)
    next
      case sub
      with "2.IH"(2)[OF Some]
      have "\<not> isProjectTotal r \<and> (\<exists>l. level r = Some l \<and> lvl + 1 \<le> l \<and> l \<le> dl)"
        by simp
      then show ?thesis by auto
    next
      case rest
      with "2.IH"(3)[OF Some] show ?thesis by simp
    qed
  qed
qed

lemma flattenHierarchy_no_descent:
  "dl \<le> lvl \<Longrightarrow>
   flattenHierarchy um dl tm ks lvl
     = concat (map (\<lambda>k. case map_of tm k of
                           None \<Rightarrow> []
                         | Some nd \<Rightarrow> if lvl \<le> dl then [resourceRow um nd lvl] else []) ks)"
  by (induction ks) (auto split: option.splits)

lemma js_sort_totalLast_id:
  "\<forall>r \<in> set rows. \<not> isProjectTotal r \<Longrightarrow> isProjectTotal t \<Longrightarrow>
     js_sort totalLast (rows @ [t]) = rows @ [t]"
proof (induction rows)
  case Nil
  show ?case by (simp add: js_sort_def)
next
  case (Cons r rows)
  then have IH: "foldr (js_insort totalLast) (rows @ [t]) [] = rows @ [t]"
    by (simp add: js_sort_def)
  from Cons.prems have "totalLast r (hd (rows @ [t])) \<le> 0"
    by (cases rows) (simp_all add: totalLast_def)
  then have "js_insort totalLast r (rows @ [t]) = r # rows @ [t]"
    by (cases rows) simp_all
  with IH show ?case by (simp add: js_sort_def)
qed

text \<open>
  The result is the traversal followed by the total row: the final sort finds the total
  row already in the last place.
\<close>

lemma processProjectResources_eq:
  "\<exists>tm hierarchy. processProjectResources tasks users proj dl
     = flattenHierarchy (buildUserMap users) dl tm hierarchy 0
       @ [projectTotalRow proj (sum_list (map resActualHours tasks))
            (sum_list (map resPlannedHours tasks))]"
proof -
  obtain tm0 a p where f: "foldl addTaskNode ([], 0, 0) tasks = (tm0, a, p)"
    by (cases "foldl addTaskNode ([], 0, 0) tasks") auto
  with foldl_addTaskNode_totals[of "[]" 0 0 tasks]
  have ap: "a = sum_list (map resActualHours tasks)" "p = sum_list (map resPlannedHours tasks)"
    by simp_all
  obtain tm hier where l: "foldl linkNode (tm0, []) (map fst tm0) = (tm, hier)"
    by (cases "foldl linkNode (tm0, []) (map fst tm0)") auto
  have nt: "\<forall>r \<in> set (flattenHierarchy (buildUserMap users) dl tm hier 0). \<not> isProjectTotal r"
    using flattenHierarchy_rows by blast
  have "processProjectResources tasks users proj dl
     = js_sort totalLast
         (flattenHierarchy (buildUserMap users) dl tm hier 0 @ [projectTotalRow proj a p])"
    by (simp add: processProjectResources_def f l)
  also have "\<dots> = flattenHierarchy (buildUserMap users) dl tm hier 0 @ [projectTotalRow proj a p]"
    by (rule js_sort_totalLast_id[OF nt]) (simp add: projectTotalRow_def)
  finally show ?thesis using ap by blast
qed


lemma chain_report:
  "processProjectResources chainTasks sampleUsers sampleProject 1 =
   [\<lparr>projectId = IntV 10, projectName = label_project @ ''10'', taskId = IntV 1,
     taskTitle = ''A'', subtaskTitle = Some [], userId = IntV 5, userName = ''Ann K'',
     actualHours = Num 2, plannedHours = Num 1, level = Some 0, isSummary = False,
     isProjectTotal = False\<rparr>,
    \<lparr>projectId = IntV 10, projectName = label_project @ ''10'', taskId = IntV 2,
     taskTitle = ''B'', subtaskTitle = Some (label_level @ ''1''), userId = IntV 5,
     userName = ''Ann K'', actualHours = Num (1 / 2), plannedHours = Num 0, level = Some 1,
     isSummary = False, isProjectTotal = False\<rparr>,
    \<lparr>projectId = Undefined, projectName = ''Proj'', taskId = Undefined,
     taskTitle = label_project_total, subtaskTitle = None, userId = Undefined, userName = [],
     actualHours = Num (11 / 4), plannedHours = Num 1, level = Some 999, isSummary = False,
     isProjectTotal = True\<rparr>]"
  by (simp add: js_eval res_eval sample_eval)



text \<open>
  C3.  Every row of \<^verbatim>\<open>processProjectResources\<close> that is not the project total has a
  level of at most \<open>detailLevel\<close>.  A call of \<^verbatim>\<open>flattenHierarchy\<close> at a level emits rows
  only with levels from that level up to \<open>detailLevel\<close>; and at a level that is not
  strictly below \<open>detailLevel\<close> it does not descend into children: its rows are those of
  the listed nodes themselves.
\<close>

theorem flattenHierarchy_depth_bound:
  "(\<forall>r \<in> set (processProjectResources tasks users proj detailLevel).
      \<not> isProjectTotal r \<longrightarrow> (case level r of Some l \<Rightarrow> l \<le> detailLevel | None \<Rightarrow> False))
   \<and> (\<forall>r \<in> set (flattenHierarchy um detailLevel tm ks lvl).
        case level r of Some l \<Rightarrow> lvl \<le> l \<and> l \<le> detailLevel | None \<Rightarrow> False)
   \<and> (detailLevel \<le> lvl \<longrightarrow>
        flattenHierarchy um detailLevel tm ks lvl
          = concat (map (\<lambda>k. case map_of tm k of
                                None \<Rightarrow> []
                              | Some nd \<Rightarrow> if lvl \<le> detailLevel then [resourceRow um nd lvl] else [])
                      ks))"
proof (intro conjI ballI impI)
  fix r
  assume r: "r \<in> set (processProjectResources tasks users proj detailLevel)"
    and nt: "\<not> isProjectTotal r"
  obtain tm' hier where e: "processProjectResources tasks users proj detailLevel
     = flattenHierarchy (buildUserMap users) detailLevel tm' hier 0
       @ [projectTotalRow proj (sum_list (map resActualHours tasks))
            (sum_list (map resPlannedHours tasks))]"
    using processProjectResources_eq by blast
  from r nt e have "r \<in> set (flattenHierarchy (buildUserMap users) detailLevel tm' hier 0)"
    by (auto simp: projectTotalRow_def)
  from flattenHierarchy_rows[OF this]
  show "case level r of Some l \<Rightarrow> l \<le> detailLevel | None \<Rightarrow> False"
    by auto
next
  fix r
  assume "r \<in> set (flattenHierarchy um detailLevel tm ks lvl)"
  from flattenHierarchy_rows[OF this]
  show "case level r of Some l \<Rightarrow> lvl \<le> l \<and> l \<le> detailLevel | None \<Rightarrow> False"
    by auto
next
  assume "detailLevel \<le> lvl"
  then show "flattenHierarchy um detailLevel tm ks lvl
          = concat (map (\<lambda>k. case map_of tm k of
                                None \<Rightarrow> []
                              | Some nd \<Rightarrow> if lvl \<le> detailLevel then [resourceRow um nd lvl] else [])
                      ks)"
    by (rule flattenHierarchy_no_descent)
qed

lemma chainStore_node2:
  "map_of chainStore (IntV 2)
     = Some \<lparr>n_task = chainTasks ! 1, children = [IntV 3], n_actualHours = Num (1 / 2),
             n_plannedHours = Num 0, n_level = 1\<rparr>"
  by (simp add: chainStore_def js_eval res_eval sample_eval)

theorem flattenHierarchy_depth_bound_witness:
  "processProjectResources chainTasks sampleUsers sampleProject 1 ! 1
      \<in> set (processProjectResources chainTasks sampleUsers sampleProject 1)
   \<and> \<not> isProjectTotal (processProjectResources chainTasks sampleUsers sampleProject 1 ! 1)
   \<and> level (processProjectResources chainTasks sampleUsers sampleProject 1 ! 1) = Some 1
   \<and> (1::nat) \<le> 1
   \<and> children (the (map_of chainStore (IntV 2))) = [IntV 3]
   \<and> flattenHierarchy (buildUserMap sampleUsers) 1 chainStore [IntV 2] 1
       = [resourceRow (buildUserMap sampleUsers) (the (map_of chainStore (IntV 2))) 1]"
proof -
  note T = flattenHierarchy_depth_bound[of chainTasks sampleUsers sampleProject 1
      "buildUserMap sampleUsers" chainStore "[IntV 2]" 1]
  from T have "flattenHierarchy (buildUserMap sampleUsers) 1 chainStore [IntV 2] 1
       = [resourceRow (buildUserMap sampleUsers) (the (map_of chainStore (IntV 2))) 1]"
    by (simp add: chainStore_node2)
  then show ?thesis
    unfolding chain_report by (simp add: chainStore_node2)
qed

text \<open>
  C10.  The result of \<^verbatim>\<open>processProjectResources\<close> is never empty: its last element is
  its only row with \<open>isProjectTotal\<close>, with level 999, the project-total label and the
  name of the given project record; for an empty task list the result is that row alone,
  with both hour fields 0.
\<close>

theorem project_total_row_always_last:
  "processProjectResources tasks users proj detailLevel \<noteq> []
   \<and> isProjectTotal (last (processProjectResources tasks users proj detailLevel))
   \<and> level (last (processProjectResources tasks users proj detailLevel)) = Some 999
   \<and> taskTitle (last (processProjectResources tasks users proj detailLevel)) = label_project_total
   \<and> projectName (last (processProjectResources tasks users proj detailLevel)) = P_NAME proj
   \<and> length (filter isProjectTotal (processProjectResources tasks users proj detailLevel)) = 1
   \<and> filter isProjectTotal (butlast (processProjectResources tasks users proj detailLevel)) = []
   \<and> processProjectResources [] users proj detailLevel = [projectTotalRow proj (Num 0) (Num 0)]"
proof -
  obtain tm hier where e: "processProjectResources tasks users proj detailLevel
     = flattenHierarchy (buildUserMap users) detailLevel tm hier 0
       @ [projectTotalRow proj (sum_list (map resActualHours tasks))
            (sum_list (map resPlannedHours tasks))]"
    using processProjectResources_eq by blast
  have nt: "filter isProjectTotal (flattenHierarchy (buildUserMap users) detailLevel tm hier 0) = []"
    using flattenHierarchy_rows by (auto simp: filter_empty_conv)
  have empty: "processProjectResources [] users proj detailLevel = [projectTotalRow proj (Num 0) (Num 0)]"
    by (simp add: processProjectResources_def linkNode_def js_sort_def zero_jsnum_def)
  show ?thesis
    by (simp add: e nt empty butlast_append) (simp add: projectTotalRow_def)
qed

theorem project_total_row_always_last_witness:
  "last (processProjectResources chainTasks sampleUsers sampleProject 1)
     = projectTotalRow sampleProject (Num (11 / 4)) (Num 1)
   \<and> isProjectTotal (last (processProjectResources chainTasks sampleUsers sampleProject 1))
   \<and> length (filter isProjectTotal (processProjectResources chainTasks sampleUsers sampleProject 1)) = 1"
  using project_total_row_always_last[of chainTasks sampleUsers sampleProject 1]
  unfolding chain_report by (simp add: projectTotalRow_def sampleProject_def)

subsection \<open>Rounding to binary64\<close>

text \<open>
  The exponent function brackets its argument between two powers of two, and a value that
  is already a binary64 value is rounded to itself; so adding a quotient of hours to the
  \<^verbatim>\<open>0\<close> of a new entry gives that quotient.
\<close>

lemma pow2_pos: "0 < (2::rat) powi e"
  by (simp add: zero_less_power_int)

lemma pow2_Suc: "(2::rat) powi (e + 1) = 2 * 2 powi e"
  by (simp add: power_int_add)

lemma pow2_mono: "a \<le> b \<Longrightarrow> (2::rat) powi a \<le> 2 powi b"
  by (rule power_int_increasing) simp_all

lemma pow2_strict_mono: "a < b \<Longrightarrow> (2::rat) powi a < 2 powi b"
  by (rule power_int_strict_increasing) simp_all

lemma expo_bounds:
  "0 < x \<Longrightarrow> 2 powi (expo x) \<le> x \<and> x < 2 powi (expo x + 1)"
proof (induction x rule: expo.induct)
  case (1 x)
  show ?case
  proof (cases "x < 1")
    case True
    with 1 have e: "expo x = expo (2 * x) - 1"
      by (subst expo.simps) simp
    from 1 True have "2 powi (expo (2 * x)) \<le> 2 * x \<and> 2 * x < 2 powi (expo (2 * x) + 1)"
      by simp
    then show ?thesis unfolding e
      using pow2_Suc[of "expo (2 * x) - 1"] pow2_Suc[of "expo (2 * x)"] by simp
  next
    case False
    show ?thesis
    proof (cases "2 \<le> x")
      case True
      with 1 False have e: "expo x = expo (x / 2) + 1"
        by (subst expo.simps) simp
      from 1 True False have "2 powi (expo (x / 2)) \<le> x / 2 \<and> x / 2 < 2 powi (expo (x / 2) + 1)"
        by simp
      then show ?thesis unfolding e
        using pow2_Suc[of "expo (x / 2)"] pow2_Suc[of "expo (x / 2) + 1"] by linarith
    next
      case F2: False
      with 1 False have e: "expo x = 0"
        by (subst expo.simps) simp
      from False F2 show ?thesis unfolding e by simp
    qed
  qed
qed

lemma expo_unique:
  assumes "0 < x" "2 powi e \<le> x" "x < 2 powi (e + 1)"
  shows "expo x = e"
proof (rule ccontr)
  assume ne: "expo x \<noteq> e"
  from expo_bounds[OF assms(1)] have b: "2 powi (expo x) \<le> x" "x < 2 powi (expo x + 1)" by simp_all
  show False
  proof (cases "expo x < e")
    case True
    then have "(2::rat) powi (expo x + 1) \<le> 2 powi e" by (intro pow2_mono) simp
    with b assms show False by linarith
  next
    case False
    with ne have "e + 1 \<le> expo x" by simp
    then have "(2::rat) powi (e + 1) \<le> 2 powi (expo x)" by (rule pow2_mono)
    with b assms show False by linarith
  qed
qed

lemma roundHalfEven_int: "roundHalfEven (of_int n) = n"
  by (simp add: roundHalfEven_def)

lemma roundHalfEven_ge: "of_int a \<le> m \<Longrightarrow> a \<le> roundHalfEven m"
proof -
  assume "of_int a \<le> m"
  then have "a \<le> \<lfloor>m\<rfloor>" by (simp add: le_floor_iff)
  then show ?thesis by (simp add: roundHalfEven_def Let_def)
qed

lemma roundHalfEven_le: "m \<le> of_int b \<Longrightarrow> roundHalfEven m \<le> b"
proof -
  assume h: "m \<le> of_int b"
  show ?thesis
  proof (cases "m = of_int b")
    case True
    then show ?thesis by (simp add: roundHalfEven_int)
  next
    case False
    with h have "m < of_int b" by simp
    then have "\<lfloor>m\<rfloor> < b" by (simp add: floor_less_iff)
    then show ?thesis by (simp add: roundHalfEven_def Let_def)
  qed
qed

lemma round64_exact:
  assumes "y \<noteq> 0" "y = of_int k * 2 powi (max (expo \<bar>y\<bar>) (- 1022) - 52)"
  shows "round64 y = y"
proof -
  let ?u = "(2::rat) powi (max (expo \<bar>y\<bar>) (- 1022) - 52)"
  have u: "?u \<noteq> 0" using pow2_pos[of "max (expo \<bar>y\<bar>) (- 1022) - 52"] by simp
  have "y / ?u = of_int k" using assms(2) u by (metis nonzero_mult_div_cancel_right)
  then have "roundHalfEven (y / ?u) = k" by (simp only: roundHalfEven_int)
  then have "round64 y = of_int k * ?u" using assms(1) by (simp add: round64_def Let_def)
  with assms(2) show ?thesis by simp
qed

lemma roundHalfEven_abs_bounds:
  assumes "of_int a \<le> \<bar>m\<bar>" "\<bar>m\<bar> \<le> of_int b" "0 \<le> a"
  shows "a \<le> \<bar>roundHalfEven m\<bar> \<and> \<bar>roundHalfEven m\<bar> \<le> b"
proof (cases "0 \<le> m")
  case True
  with assms have "of_int a \<le> m" "m \<le> of_int b" by simp_all
  then have "a \<le> roundHalfEven m" "roundHalfEven m \<le> b"
    by (simp_all add: roundHalfEven_ge roundHalfEven_le)
  with assms(3) show ?thesis by simp
next
  case False
  with assms have "m \<le> of_int (- a)" "of_int (- b) \<le> m" by simp_all
  then have "roundHalfEven m \<le> - a" "- b \<le> roundHalfEven m"
    by (simp_all only: roundHalfEven_ge roundHalfEven_le)
  with assms(3) show ?thesis by simp
qed

lemma pow2_split: "(2::rat) powi e = 2 ^ 52 * 2 powi (e - 52)"
proof -
  have "(2::rat) powi e = 2 powi (52 + (e - 52))" by simp
  also have "\<dots> = 2 powi 52 * 2 powi (e - 52)" by (subst power_int_add) simp_all
  finally show ?thesis by simp
qed

lemma round64_grid:
  assumes x: "x \<noteq> 0"
  defines "e \<equiv> max (expo \<bar>x\<bar>) (- 1022)"
  defines "n \<equiv> roundHalfEven (x / 2 powi (e - 52))"
  shows "round64 x = of_int n * 2 powi (e - 52)"
    and "expo \<bar>x\<bar> \<ge> - 1022 \<Longrightarrow> 2 ^ 52 \<le> \<bar>n\<bar> \<and> \<bar>n\<bar> \<le> 2 ^ 53"
    and "expo \<bar>x\<bar> < - 1022 \<Longrightarrow> \<bar>n\<bar> \<le> 2 ^ 52"
proof -
  let ?u = "(2::rat) powi (e - 52)"
  have up: "0 < ?u" by (rule pow2_pos)
  show "round64 x = of_int n * ?u"
    using x by (simp add: round64_def Let_def e_def n_def)
  have px: "0 < \<bar>x\<bar>" using x by simp
  from expo_bounds[OF px] have lo: "2 powi (expo \<bar>x\<bar>) \<le> \<bar>x\<bar>" and hi: "\<bar>x\<bar> < 2 powi (expo \<bar>x\<bar> + 1)"
    by simp_all
  have am: "\<bar>x / ?u\<bar> = \<bar>x\<bar> / ?u" using up by simp
  {
    assume n: "expo \<bar>x\<bar> \<ge> - 1022"
    then have ee: "e = expo \<bar>x\<bar>" by (simp add: e_def)
    have "2 ^ 52 * ?u \<le> \<bar>x\<bar>" using lo pow2_split[of e] by (simp add: ee)
    then have l: "2 ^ 52 \<le> \<bar>x\<bar> / ?u" using up by (simp add: pos_le_divide_eq)
    have "\<bar>x\<bar> < 2 * (2 ^ 52 * ?u)" using hi pow2_split[of e] pow2_Suc[of e] by (simp add: ee)
    then have h: "\<bar>x\<bar> / ?u \<le> 2 ^ 53" using up by (simp add: pos_divide_le_eq)
    from roundHalfEven_abs_bounds[of "2 ^ 52" "x / ?u" "2 ^ 53"] l h
    show "2 ^ 52 \<le> \<bar>n\<bar> \<and> \<bar>n\<bar> \<le> 2 ^ 53" unfolding am n_def by simp
  }
  {
    assume s: "expo \<bar>x\<bar> < - 1022"
    then have ee: "e = - 1022" by (simp add: e_def)
    from s have "(2::rat) powi (expo \<bar>x\<bar> + 1) \<le> 2 powi (- 1022)" by (intro pow2_mono) simp
    with hi have "\<bar>x\<bar> < 2 powi e" unfolding ee by linarith
    then have "\<bar>x\<bar> < 2 ^ 52 * ?u" using pow2_split[of e] by simp
    then have h: "\<bar>x\<bar> / ?u \<le> 2 ^ 52" using up by (simp add: pos_divide_le_eq)
    have l: "0 \<le> \<bar>x\<bar> / ?u" using up by simp
    from roundHalfEven_abs_bounds[of 0 "x / ?u" "2 ^ 52"] l h
    show "\<bar>n\<bar> \<le> 2 ^ 52" unfolding am n_def by simp
  }
qed

lemma round64_of_grid:
  assumes n0: "n \<noteq> 0" and e: "- 1022 \<le> e"
    and b: "\<bar>n\<bar> \<le> 2 ^ 53" and nrm: "e > - 1022 \<Longrightarrow> 2 ^ 52 \<le> \<bar>n\<bar>"
  shows "round64 (of_int n * 2 powi (e - 52)) = of_int n * 2 powi (e - 52)"
proof -
  let ?u = "(2::rat) powi (e - 52)"
  let ?y = "of_int n * ?u"
  have up: "0 < ?u" by (rule pow2_pos)
  have y0: "?y \<noteq> 0" using n0 up by simp
  have ay: "\<bar>?y\<bar> = of_int \<bar>n\<bar> * ?u" using up by (simp add: abs_mult)
  have py: "0 < \<bar>?y\<bar>" using y0 by simp
  have pe: "(2::rat) powi e = 2 ^ 52 * ?u" by (rule pow2_split)
  have pe1: "(2::rat) powi (e + 1) = 2 ^ 53 * ?u" using pow2_Suc[of e] pe by simp
  consider (top) "\<bar>n\<bar> = 2 ^ 53" | (mid) "2 ^ 52 \<le> \<bar>n\<bar>" "\<bar>n\<bar> < 2 ^ 53" | (low) "\<bar>n\<bar> < 2 ^ 52"
    using b by linarith
  then have "\<exists>k. ?y = of_int k * 2 powi (max (expo \<bar>?y\<bar>) (- 1022) - 52)"
  proof cases
    case top
    then have "\<bar>?y\<bar> = 2 powi (e + 1)" unfolding ay pe1 by simp
    moreover have "(2::rat) powi (e + 1) < 2 powi (e + 1 + 1)" by (rule pow2_strict_mono) simp
    ultimately have "expo \<bar>?y\<bar> = e + 1" using py by (intro expo_unique) simp_all
    then have m: "max (expo \<bar>?y\<bar>) (- 1022) - 52 = (e - 52) + 1" using e by simp
    from top have "even n" by (metis even_abs_add_iff even_add even_numeral even_power zero_less_numeral)
    then obtain k where k: "n = 2 * k" by (elim evenE)
    have "?y = of_int k * 2 powi ((e - 52) + 1)" unfolding k pow2_Suc by simp
    then show ?thesis unfolding m by blast
  next
    case mid
    have "(2::rat) ^ 52 \<le> of_int \<bar>n\<bar>" using mid(1) by (metis of_int_le_iff of_int_numeral of_int_power)
    then have l: "2 powi e \<le> \<bar>?y\<bar>" unfolding ay pe using up by simp
    have "of_int \<bar>n\<bar> < (2::rat) ^ 53" using mid(2) by (metis of_int_less_iff of_int_numeral of_int_power)
    then have h: "\<bar>?y\<bar> < 2 powi (e + 1)" unfolding ay pe1 using up by simp
    have "expo \<bar>?y\<bar> = e" using py l h by (rule expo_unique)
    then have "max (expo \<bar>?y\<bar>) (- 1022) = e" using e by simp
    then show ?thesis by auto
  next
    case low
    with nrm have ee: "e = - 1022" using e by fastforce
    have "of_int \<bar>n\<bar> < (2::rat) ^ 52" using low by (metis of_int_less_iff of_int_numeral of_int_power)
    then have h: "\<bar>?y\<bar> < 2 powi e" unfolding ay pe using up by simp
    have "expo \<bar>?y\<bar> < e"
    proof (rule ccontr)
      assume "\<not> expo \<bar>?y\<bar> < e"
      then have "(2::rat) powi e \<le> 2 powi (expo \<bar>?y\<bar>)" by (intro pow2_mono) simp
      with expo_bounds[OF py] h show False by linarith
    qed
    then have "max (expo \<bar>?y\<bar>) (- 1022) = e" using ee by simp
    then show ?thesis by auto
  qed
  then obtain k where "?y = of_int k * 2 powi (max (expo \<bar>?y\<bar>) (- 1022) - 52)" ..
  with y0 show ?thesis by (rule round64_exact)
qed

lemma round64_idem: "round64 (round64 x) = round64 x"
proof (cases "x = 0")
  case True
  then show ?thesis by (simp add: round64_def)
next
  case False
  define e where "e = max (expo \<bar>x\<bar>) (- 1022)"
  define n where "n = roundHalfEven (x / 2 powi (e - 52))"
  note g = round64_grid[OF False, folded e_def n_def]
  show ?thesis
  proof (cases "n = 0")
    case True
    then show ?thesis unfolding g(1) by (simp add: round64_def)
  next
    case n0: False
    have e: "- 1022 \<le> e" by (simp add: e_def)
    have b: "\<bar>n\<bar> \<le> 2 ^ 53"
    proof (cases "expo \<bar>x\<bar> \<ge> - 1022")
      case True
      from g(2)[OF this] show ?thesis by simp
    next
      case False
      then have "\<bar>n\<bar> \<le> 2 ^ 52" by (intro g(3)) simp
      then show ?thesis by simp
    qed
    have nrm: "e > - 1022 \<Longrightarrow> 2 ^ 52 \<le> \<bar>n\<bar>"
    proof -
      assume "e > - 1022"
      then have "expo \<bar>x\<bar> \<ge> - 1022" by (simp add: e_def)
      from g(2)[OF this] show ?thesis by simp
    qed
    show ?thesis unfolding g(1) by (rule round64_of_grid[OF n0 e b nrm])
  qed
qed

subsection \<open>The plan versus fact ledger\<close>

lemma update_fresh: "map_of xs k = None \<Longrightarrow> AList.update k v xs = xs @ [(k, v)]"
  by (induction xs) (auto split: if_splits)

lemma map_entry_keys: "map fst (AList.map_entry k f xs) = map fst xs"
  by (induction xs) auto

lemma map_entry_snoc_fresh:
  "map_of xs k = None \<Longrightarrow> AList.map_entry k f (xs @ [(k, v)]) = xs @ [(k, f v)]"
  by (induction xs) (auto split: if_splits)

lemma map_entry_set:
  "p \<in> set (AList.map_entry k f xs) \<Longrightarrow> p \<in> set xs \<or> (\<exists>v. (k, v) \<in> set xs \<and> p = (k, f v))"
  by (induction xs) (auto split: if_splits)

lemma map_entry_other:
  "(k', v) \<in> set (AList.map_entry k f xs) \<Longrightarrow> k' \<noteq> k \<Longrightarrow> (k', v) \<in> set xs"
  by (induction xs) (auto split: if_splits)

lemma map_entry_distinct_hit:
  "distinct (map fst xs) \<Longrightarrow> map_of xs k = Some v \<Longrightarrow>
     set (AList.map_entry k f xs) = insert (k, f v) (set xs - {(k, v)})"
proof (induction xs)
  case Nil
  then show ?case by simp
next
  case (Cons p ps)
  show ?case
  proof (cases "fst p = k")
    case True
    with Cons.prems have "p = (k, v)" by (cases p) auto
    moreover from Cons.prems True have "(k, v) \<notin> set ps"
      by (auto simp: image_iff)
    ultimately show ?thesis by auto
  next
    case False
    with Cons.prems have "map_of ps k = Some v" "distinct (map fst ps)" by (auto split: if_splits)
    from Cons.IH[OF this(2,1)] False show ?thesis by (cases p) auto
  qed
qed

lemma planFactStep_excluded: "\<not> included t \<Longrightarrow> planFactStep um pm utm t = utm"
  by (auto simp: planFactStep_def included_def)

lemma planFactStep_new:
  "included t \<Longrightarrow> map_of utm (groupKey t) = None \<Longrightarrow>
     planFactStep um pm utm t = utm @ [(groupKey t, addToGroup t (newGroup um pm t))]"
  by (simp add: planFactStep_def included_def groupKey_def newGroup_def Let_def
        update_fresh map_entry_snoc_fresh)

lemma planFactStep_old:
  "included t \<Longrightarrow> map_of utm (groupKey t) \<noteq> None \<Longrightarrow>
     planFactStep um pm utm t = AList.map_entry (groupKey t) (addToGroup t) utm"
  by (auto simp: planFactStep_def included_def groupKey_def Let_def)

lemma addToGroup_keys:
  "map fst (ud_tasks (addToGroup t ud))
     = (if map_of (ud_tasks ud) (t_id t) = None then map fst (ud_tasks ud) @ [t_id t]
        else map fst (ud_tasks ud))"
  by (simp add: addToGroup_def Let_def map_entry_keys update_fresh)

lemma addToGroup_names:
  "ud_projectName (addToGroup t ud) = ud_projectName ud"
  "ud_userName (addToGroup t ud) = ud_userName ud"
  by (simp_all add: addToGroup_def Let_def)

lemma addToGroup_totals:
  "totalActual (addToGroup t ud) = add64 (totalActual ud) (pfActualHours t)"
  "totalPlanned (addToGroup t ud) = add64 (totalPlanned ud) (pfPlannedHours t)"
  by (simp_all add: addToGroup_def Let_def)

lemma total64_snoc: "total64 (hs @ [h]) = add64 (total64 hs) h"
  by (simp add: total64_def)

lemma total64_Nil: "total64 [] = Num 0"
  by (simp add: total64_def)

lemma firstSeen_snoc:
  "firstSeen (xs @ [x]) = (if x \<in> set (firstSeen xs) then firstSeen xs else firstSeen xs @ [x])"
  by (simp add: firstSeen_def)

lemma firstSeen_Nil: "firstSeen [] = []"
  by (simp add: firstSeen_def)

lemma set_firstSeen: "set (firstSeen xs) = set xs"
  by (induction xs rule: rev_induct) (auto simp: firstSeen_snoc firstSeen_Nil)

lemma distinct_firstSeen: "distinct (firstSeen xs)"
  by (induction xs rule: rev_induct) (auto simp: firstSeen_snoc firstSeen_Nil)

lemma firstSeen_distinct: "distinct xs \<Longrightarrow> firstSeen xs = xs"
  by (induction xs rule: rev_induct) (auto simp: firstSeen_snoc firstSeen_Nil set_firstSeen)

lemma groupTasks_snoc:
  "groupTasks k (ts @ [t])
     = (if included t \<and> groupKey t = k then groupTasks k ts @ [t] else groupTasks k ts)"
  by (simp add: groupTasks_def)

lemma set_groupTasks: "set (groupTasks k ts) = {t \<in> set ts. included t \<and> groupKey t = k}"
  by (auto simp: groupTasks_def)

text \<open>What \<open>addToGroup\<close> does to the task entries.\<close>

lemma addToGroup_entries:
  assumes d: "distinct (map fst (ud_tasks ud))" and e: "e \<in> set (ud_tasks (addToGroup t ud))"
  shows "(fst e = t_id t
          \<and> td_actualHours (snd e)
              = add64 (case map_of (ud_tasks ud) (t_id t) of None \<Rightarrow> Num 0 | Some v \<Rightarrow> td_actualHours v)
                  (pfActualHours t)
          \<and> td_plannedHours (snd e)
              = add64 (case map_of (ud_tasks ud) (t_id t) of None \<Rightarrow> Num 0 | Some v \<Rightarrow> td_plannedHours v)
                  (pfPlannedHours t))
         \<or> (fst e \<noteq> t_id t \<and> e \<in> set (ud_tasks ud))"
proof -
  let ?init = "\<lparr>td_title = titleOf t, td_actualHours = Num 0, td_plannedHours = Num 0\<rparr>"
  let ?bump = "\<lambda>taskData. taskData\<lparr>td_actualHours := add64 (td_actualHours taskData) (pfActualHours t),
                                      td_plannedHours := add64 (td_plannedHours taskData) (pfPlannedHours t)\<rparr>"
  show ?thesis
  proof (cases "map_of (ud_tasks ud) (t_id t)")
    case None
    then have t2: "ud_tasks (addToGroup t ud) = ud_tasks ud @ [(t_id t, ?bump ?init)]"
      by (simp add: addToGroup_def Let_def update_fresh map_entry_snoc_fresh)
    from None have fresh: "t_id t \<notin> fst ` set (ud_tasks ud)"
      by (simp add: map_of_eq_None_iff)
    from e t2 consider "e \<in> set (ud_tasks ud)" | "e = (t_id t, ?bump ?init)" by auto
    then show ?thesis
    proof cases
      case 1
      with fresh have "fst e \<noteq> t_id t" by (auto simp: image_iff)
      with 1 show ?thesis by simp
    next
      case 2
      then show ?thesis using None by simp
    qed
  next
    case (Some v)
    then have t2: "ud_tasks (addToGroup t ud) = AList.map_entry (t_id t) ?bump (ud_tasks ud)"
      by (simp add: addToGroup_def Let_def)
    from map_entry_distinct_hit[OF d Some, of ?bump] e t2
    consider "e = (t_id t, ?bump v)" | "e \<in> set (ud_tasks ud)" "e \<noteq> (t_id t, v)"
      by auto
    then show ?thesis
    proof cases
      case 1
      then show ?thesis using Some by simp
    next
      case 2
      have "fst e \<noteq> t_id t"
      proof
        assume "fst e = t_id t"
        with 2(1) have "(t_id t, snd e) \<in> set (ud_tasks ud)" by (metis prod.collapse)
        with d Some have "snd e = v" by (simp add: map_of_eq_Some_iff)
        with \<open>fst e = t_id t\<close> 2(2) show False by (metis prod.collapse)
      qed
      with 2 show ?thesis by simp
    qed
  qed
qed

lemma addToGroup_keys_set:
  "fst ` set (ud_tasks (addToGroup t ud)) = insert (t_id t) (fst ` set (ud_tasks ud))"
proof -
  have "set (map fst (ud_tasks (addToGroup t ud))) = insert (t_id t) (set (map fst (ud_tasks ud)))"
    unfolding addToGroup_keys by (auto simp: map_of_eq_None_iff)
  then show ?thesis by simp
qed

lemma groupInv_add:
  assumes gi: "groupInv ts k ud" and inc: "included t" and key: "groupKey t = k"
  shows "groupInv (ts @ [t]) k (addToGroup t ud)"
proof -
  let ?gts = "groupTasks k ts"
  from gi have d0: "distinct (map fst (ud_tasks ud))"
    and ids0: "fst ` set (ud_tasks ud) = t_id ` {t \<in> set ts. included t \<and> groupKey t = k}"
    and ord0: "map fst (ud_tasks ud) = firstSeen (map t_id ?gts)"
    and ta0: "totalActual ud = total64 (map pfActualHours ?gts)"
    and tp0: "totalPlanned ud = total64 (map pfPlannedHours ?gts)"
    and en0: "\<And>e. e \<in> set (ud_tasks ud) \<Longrightarrow>
            td_actualHours (snd e) = total64 (map pfActualHours (filter (\<lambda>t. t_id t = fst e) ?gts))
            \<and> td_plannedHours (snd e) = total64 (map pfPlannedHours (filter (\<lambda>t. t_id t = fst e) ?gts))"
    unfolding groupInv_def by blast+
  have g: "groupTasks k (ts @ [t]) = ?gts @ [t]"
    using inc key by (simp add: groupTasks_snoc)
  have keys: "fst ` set (ud_tasks (addToGroup t ud)) = insert (t_id t) (fst ` set (ud_tasks ud))"
    by (rule addToGroup_keys_set)
  have dist: "distinct (map fst (ud_tasks (addToGroup t ud)))"
    using d0 by (auto simp: addToGroup_keys map_of_eq_None_iff)
  have ne: "ud_tasks (addToGroup t ud) \<noteq> []"
    using keys by auto
  have ids: "t_id ` {t' \<in> set (ts @ [t]). included t' \<and> groupKey t' = k}
               = insert (t_id t) (t_id ` {t' \<in> set ts. included t' \<and> groupKey t' = k})"
    using inc key by auto
  have mo: "(map_of (ud_tasks ud) (t_id t) = None) = (t_id t \<notin> set (firstSeen (map t_id ?gts)))"
    unfolding ord0[symmetric] by (simp add: map_of_eq_None_iff)
  have ord: "map fst (ud_tasks (addToGroup t ud)) = firstSeen (map t_id (groupTasks k (ts @ [t])))"
    unfolding g addToGroup_keys map_append list.map firstSeen_snoc mo ord0 by simp
  have ta: "totalActual (addToGroup t ud) = total64 (map pfActualHours (groupTasks k (ts @ [t])))"
    unfolding g by (simp add: addToGroup_totals total64_snoc ta0)
  have tp: "totalPlanned (addToGroup t ud) = total64 (map pfPlannedHours (groupTasks k (ts @ [t])))"
    unfolding g by (simp add: addToGroup_totals total64_snoc tp0)
  have prev: "(case map_of (ud_tasks ud) (t_id t) of None \<Rightarrow> Num 0 | Some v \<Rightarrow> td_actualHours v)
                 = total64 (map pfActualHours (filter (\<lambda>t'. t_id t' = t_id t) ?gts))
              \<and> (case map_of (ud_tasks ud) (t_id t) of None \<Rightarrow> Num 0 | Some v \<Rightarrow> td_plannedHours v)
                 = total64 (map pfPlannedHours (filter (\<lambda>t'. t_id t' = t_id t) ?gts))"
  proof (cases "map_of (ud_tasks ud) (t_id t)")
    case None
    then have "t_id t \<notin> fst ` set (ud_tasks ud)" by (simp add: map_of_eq_None_iff)
    then have "t_id t \<notin> t_id ` set ?gts" unfolding ids0 set_groupTasks .
    then have "filter (\<lambda>t'. t_id t' = t_id t) ?gts = []"
      by (auto simp: filter_empty_conv image_iff)
    with None show ?thesis by (simp add: total64_Nil)
  next
    case (Some v)
    then have "(t_id t, v) \<in> set (ud_tasks ud)" by (rule map_of_SomeD)
    from en0[OF this] Some show ?thesis by simp
  qed
  have en: "\<forall>e \<in> set (ud_tasks (addToGroup t ud)).
            td_actualHours (snd e)
              = total64 (map pfActualHours (filter (\<lambda>t. t_id t = fst e) (groupTasks k (ts @ [t]))))
            \<and> td_plannedHours (snd e)
              = total64 (map pfPlannedHours (filter (\<lambda>t. t_id t = fst e) (groupTasks k (ts @ [t]))))"
  proof
    fix e assume "e \<in> set (ud_tasks (addToGroup t ud))"
    from addToGroup_entries[OF d0 this]
    show "td_actualHours (snd e)
              = total64 (map pfActualHours (filter (\<lambda>t. t_id t = fst e) (groupTasks k (ts @ [t]))))
            \<and> td_plannedHours (snd e)
              = total64 (map pfPlannedHours (filter (\<lambda>t. t_id t = fst e) (groupTasks k (ts @ [t]))))"
    proof
      assume h: "fst e = t_id t
          \<and> td_actualHours (snd e)
              = add64 (case map_of (ud_tasks ud) (t_id t) of None \<Rightarrow> Num 0 | Some v \<Rightarrow> td_actualHours v)
                  (pfActualHours t)
          \<and> td_plannedHours (snd e)
              = add64 (case map_of (ud_tasks ud) (t_id t) of None \<Rightarrow> Num 0 | Some v \<Rightarrow> td_plannedHours v)
                  (pfPlannedHours t)"
      then have f: "filter (\<lambda>t'. t_id t' = fst e) (?gts @ [t]) = filter (\<lambda>t'. t_id t' = t_id t) ?gts @ [t]"
        by simp
      show ?thesis unfolding g f using h prev by (simp add: total64_snoc)
    next
      assume h: "fst e \<noteq> t_id t \<and> e \<in> set (ud_tasks ud)"
      then have f: "filter (\<lambda>t'. t_id t' = fst e) (?gts @ [t]) = filter (\<lambda>t'. t_id t' = fst e) ?gts"
        by auto
      show ?thesis unfolding g f using en0 h by blast
    qed
  qed
  show ?thesis
    unfolding groupInv_def
    using ne dist keys ids ids0 ord ta tp en by simp
qed

lemma groupInv_first:
  assumes "included t" "groupKey t \<notin> groupKey ` {t' \<in> set ts. included t'}"
  shows "groupInv (ts @ [t]) (groupKey t) (addToGroup t (newGroup um pm t))"
proof -
  let ?bump = "\<lparr>td_title = titleOf t, td_actualHours = add64 (Num 0) (pfActualHours t),
                td_plannedHours = add64 (Num 0) (pfPlannedHours t)\<rparr>"
  have e: "{t' \<in> set (ts @ [t]). included t' \<and> groupKey t' = groupKey t} = {t}"
    using assms by (auto simp: image_iff)
  have "groupTasks (groupKey t) ts = []"
    using assms(2) by (auto simp: groupTasks_def filter_empty_conv image_iff)
  then have g: "groupTasks (groupKey t) (ts @ [t]) = [t]"
    using assms(1) by (simp add: groupTasks_snoc)
  have u: "ud_tasks (addToGroup t (newGroup um pm t)) = [(t_id t, ?bump)]"
    by (simp add: addToGroup_def newGroup_def Let_def)
  have z: "totalActual (newGroup um pm t) = Num 0" "totalPlanned (newGroup um pm t) = Num 0"
    by (simp_all add: newGroup_def)
  show ?thesis
    unfolding groupInv_def e g u
    by (simp add: addToGroup_totals z total64_def firstSeen_def)
qed

lemma groupInv_skip:
  assumes "groupInv ts k ud" "\<not> included t \<or> groupKey t \<noteq> k"
  shows "groupInv (ts @ [t]) k ud"
proof -
  have s: "{t' \<in> set (ts @ [t]). included t' \<and> groupKey t' = k}
          = {t' \<in> set ts. included t' \<and> groupKey t' = k}"
    using assms(2) by auto
  have g: "groupTasks k (ts @ [t]) = groupTasks k ts"
    using assms(2) by (auto simp: groupTasks_snoc)
  show ?thesis using assms(1) unfolding groupInv_def s g .
qed

lemma planFactGroups_invariant:
  "distinct (map fst (foldl (planFactStep um pm) [] ts))
   \<and> set (map fst (foldl (planFactStep um pm) [] ts)) = groupKey ` {t \<in> set ts. included t}
   \<and> (\<forall>(k, ud) \<in> set (foldl (planFactStep um pm) [] ts). groupInv ts k ud)"
proof (induction ts rule: rev_induct)
  case Nil
  show ?case by simp
next
  case (snoc t ts)
  let ?utm = "foldl (planFactStep um pm) [] ts"
  from snoc have d: "distinct (map fst ?utm)"
    and ks: "set (map fst ?utm) = groupKey ` {t \<in> set ts. included t}"
    and gi: "\<And>k ud. (k, ud) \<in> set ?utm \<Longrightarrow> groupInv ts k ud"
    by auto
  show ?case
  proof (cases "included t")
    case False
    then have st: "foldl (planFactStep um pm) [] (ts @ [t]) = ?utm"
      by (simp add: planFactStep_excluded)
    have "{t' \<in> set (ts @ [t]). included t'} = {t' \<in> set ts. included t'}"
      using False by auto
    with d ks gi False show ?thesis
      unfolding st by (auto intro: groupInv_skip)
  next
    case True
    have kset: "groupKey ` {t' \<in> set (ts @ [t]). included t'}
                 = insert (groupKey t) (groupKey ` {t' \<in> set ts. included t'})"
      using True by auto
    show ?thesis
    proof (cases "map_of ?utm (groupKey t)")
      case None
      then have fresh: "groupKey t \<notin> set (map fst ?utm)"
        by (simp add: map_of_eq_None_iff)
      have st: "foldl (planFactStep um pm) [] (ts @ [t])
                  = ?utm @ [(groupKey t, addToGroup t (newGroup um pm t))]"
        by (simp add: planFactStep_new[OF True None])
      have new: "groupInv (ts @ [t]) (groupKey t) (addToGroup t (newGroup um pm t))"
        using fresh ks by (intro groupInv_first[OF True]) simp
      have old: "\<And>k ud. (k, ud) \<in> set ?utm \<Longrightarrow> groupInv (ts @ [t]) k ud"
      proof -
        fix k ud assume m: "(k, ud) \<in> set ?utm"
        then have "k \<noteq> groupKey t" using fresh by (auto simp: image_iff)
        with gi[OF m] show "groupInv (ts @ [t]) k ud" by (intro groupInv_skip) auto
      qed
      show ?thesis
        unfolding st kset using d ks fresh new old by auto
    next
      case (Some ud0)
      have st: "foldl (planFactStep um pm) [] (ts @ [t])
                  = AList.map_entry (groupKey t) (addToGroup t) ?utm"
        using Some by (simp add: planFactStep_old[OF True])
      have mem: "groupKey t \<in> set (map fst ?utm)"
        using Some by (metis map_of_eq_None_iff option.distinct(1) set_map)
      have sets: "set (AList.map_entry (groupKey t) (addToGroup t) ?utm)
                    = insert (groupKey t, addToGroup t ud0) (set ?utm - {(groupKey t, ud0)})"
        by (rule map_entry_distinct_hit[OF d Some])
      have inv: "\<And>k ud. (k, ud) \<in> set (AList.map_entry (groupKey t) (addToGroup t) ?utm)
                    \<Longrightarrow> groupInv (ts @ [t]) k ud"
      proof -
        fix k ud assume "(k, ud) \<in> set (AList.map_entry (groupKey t) (addToGroup t) ?utm)"
        with sets consider (hit) "k = groupKey t" "ud = addToGroup t ud0"
          | (other) "(k, ud) \<in> set ?utm" "(k, ud) \<noteq> (groupKey t, ud0)"
          by auto
        then show "groupInv (ts @ [t]) k ud"
        proof cases
          case hit
          have "(groupKey t, ud0) \<in> set ?utm" using Some by (rule map_of_SomeD)
          from gi[OF this] show ?thesis unfolding hit by (rule groupInv_add[OF _ True refl])
        next
          case other
          have "k \<noteq> groupKey t"
          proof
            assume "k = groupKey t"
            with other(1) d Some have "ud = ud0" by (simp add: map_of_eq_Some_iff)
            with other(2) \<open>k = groupKey t\<close> show False by simp
          qed
          with gi[OF other(1)] show ?thesis by (intro groupInv_skip) auto
        qed
      qed
      show ?thesis
        unfolding st kset using d ks mem inv by (auto simp: map_entry_keys)
    qed
  qed
qed

lemma planFactStep_entries:
  assumes "(k, ud) \<in> set (planFactStep um pm utm t)"
  shows "(k, ud) \<in> set utm
         \<or> (included t \<and> k = groupKey t \<and> (\<exists>ud0. (k, ud0) \<in> set utm \<and> ud = addToGroup t ud0))
         \<or> (included t \<and> k = groupKey t \<and> map_of utm k = None
             \<and> ud = addToGroup t (newGroup um pm t))"
proof (cases "included t")
  case False
  with assms show ?thesis by (simp add: planFactStep_excluded)
next
  case True
  show ?thesis
  proof (cases "map_of utm (groupKey t)")
    case None
    from assms show ?thesis
      unfolding planFactStep_new[OF True None] using True None by auto
  next
    case (Some ud0)
    then have "map_of utm (groupKey t) \<noteq> None" by simp
    from assms[unfolded planFactStep_old[OF True this]] map_entry_set[of "(k, ud)" "groupKey t" "addToGroup t" utm]
    show ?thesis using True by auto
  qed
qed

text \<open>The names of a group are those computed from the first task of the group.\<close>

lemma planFactGroups_names:
  "\<forall>(k, ud) \<in> set (foldl (planFactStep um pm) [] ts).
      groupTasks k ts \<noteq> []
      \<and> ud_projectName ud = ud_projectName (newGroup um pm (hd (groupTasks k ts)))
      \<and> ud_userName ud = ud_userName (newGroup um pm (hd (groupTasks k ts)))"
proof (induction ts rule: rev_induct)
  case Nil
  show ?case by simp
next
  case (snoc t ts)
  let ?utm = "foldl (planFactStep um pm) [] ts"
  from snoc have ih: "\<And>k ud. (k, ud) \<in> set ?utm \<Longrightarrow>
      groupTasks k ts \<noteq> []
      \<and> ud_projectName ud = ud_projectName (newGroup um pm (hd (groupTasks k ts)))
      \<and> ud_userName ud = ud_userName (newGroup um pm (hd (groupTasks k ts)))"
    by auto
  have ks: "set (map fst ?utm) = groupKey ` {t \<in> set ts. included t}"
    using planFactGroups_invariant[of um pm ts] by blast
  have keep: "\<And>k. groupTasks k ts \<noteq> [] \<Longrightarrow>
      groupTasks k (ts @ [t]) \<noteq> [] \<and> hd (groupTasks k (ts @ [t])) = hd (groupTasks k ts)"
    by (simp add: groupTasks_snoc)
  have "\<And>k ud. (k, ud) \<in> set (planFactStep um pm ?utm t) \<Longrightarrow>
      groupTasks k (ts @ [t]) \<noteq> []
      \<and> ud_projectName ud = ud_projectName (newGroup um pm (hd (groupTasks k (ts @ [t]))))
      \<and> ud_userName ud = ud_userName (newGroup um pm (hd (groupTasks k (ts @ [t]))))"
  proof -
    fix k ud assume "(k, ud) \<in> set (planFactStep um pm ?utm t)"
    from planFactStep_entries[OF this]
    consider (old) "(k, ud) \<in> set ?utm"
      | (bump) ud0 where "included t" "k = groupKey t" "(k, ud0) \<in> set ?utm" "ud = addToGroup t ud0"
      | (new) "included t" "k = groupKey t" "map_of ?utm k = None" "ud = addToGroup t (newGroup um pm t)"
      by (elim disjE conjE exE) simp_all
    then show "groupTasks k (ts @ [t]) \<noteq> []
      \<and> ud_projectName ud = ud_projectName (newGroup um pm (hd (groupTasks k (ts @ [t]))))
      \<and> ud_userName ud = ud_userName (newGroup um pm (hd (groupTasks k (ts @ [t]))))"
    proof cases
      case old
      from ih[OF old] keep[of k] show ?thesis by simp
    next
      case bump
      from ih[OF bump(3)] keep[of k] show ?thesis
        unfolding bump(4) by (simp add: addToGroup_names)
    next
      case new
      from new(3) have "k \<notin> set (map fst ?utm)" by (simp add: map_of_eq_None_iff)
      then have "groupTasks k ts = []"
        unfolding ks by (auto simp: groupTasks_def filter_empty_conv image_iff)
      then have "groupTasks k (ts @ [t]) = [t]"
        using new(1,2) by (simp add: groupTasks_snoc)
      then show ?thesis unfolding new(4) by (simp add: addToGroup_names)
    qed
  qed
  then show ?case by auto
qed

lemma buildUserMap_None:
  "(buildUserMap users k = None) = (\<forall>u \<in> set users. parseInt (ID u) \<noteq> k)"
proof -
  have "(foldl (\<lambda>m u. m(parseInt (ID u) \<mapsto> u)) m0 users k = None)
          = (m0 k = None \<and> (\<forall>u \<in> set users. parseInt (ID u) \<noteq> k))" for m0
    by (induction users arbitrary: m0) auto
  from this[of Map.empty] show ?thesis by (simp add: buildUserMap_def)
qed

lemma mset_js_insort: "mset (js_insort cmp x ys) = add_mset x (mset ys)"
  by (induction ys) auto

lemma mset_js_sort: "mset (js_sort cmp xs) = mset xs"
  by (induction xs) (auto simp: js_sort_def mset_js_insort)

lemma set_js_insort: "set (js_insort cmp x ys) = insert x (set ys)"
  by (induction ys) auto

lemma length_filter_js_sort: "length (filter P (js_sort cmp xs)) = length (filter P xs)"
proof -
  have "mset (filter P (js_sort cmp xs)) = mset (filter P xs)"
    by (simp add: mset_js_sort)
  then show ?thesis by (metis size_mset)
qed

lemma sorted_js_insort:
  assumes tot: "\<And>a b. a \<in> S \<Longrightarrow> b \<in> S \<Longrightarrow> \<not> cmp a b \<le> 0 \<Longrightarrow> cmp b a \<le> 0"
    and trans: "\<And>a b c. a \<in> S \<Longrightarrow> b \<in> S \<Longrightarrow> c \<in> S \<Longrightarrow> cmp a b \<le> 0 \<Longrightarrow> cmp b c \<le> 0
                  \<Longrightarrow> cmp a c \<le> 0"
    and x: "x \<in> S"
  shows "set ys \<subseteq> S \<Longrightarrow> sorted_wrt (\<lambda>a b. cmp a b \<le> 0) ys
           \<Longrightarrow> sorted_wrt (\<lambda>a b. cmp a b \<le> 0) (js_insort cmp x ys)"
proof (induction ys)
  case Nil
  show ?case by simp
next
  case (Cons y ys)
  from Cons.prems have y: "y \<in> S" and ys: "set ys \<subseteq> S" by simp_all
  show ?case
  proof (cases "cmp x y \<le> 0")
    case True
    have "\<forall>z \<in> set ys. cmp x z \<le> 0"
    proof
      fix z assume z: "z \<in> set ys"
      with Cons.prems(2) have "cmp y z \<le> 0" by simp
      from trans[OF x y _ True this] z ys show "cmp x z \<le> 0" by blast
    qed
    with True Cons.prems(2) show ?thesis by simp
  next
    case False
    from tot[OF x y False] have "cmp y x \<le> 0" .
    with Cons.IH[OF ys] Cons.prems(2) False show ?thesis by (auto simp: set_js_insort)
  qed
qed

lemma sorted_js_sort:
  assumes tot: "\<And>a b. a \<in> S \<Longrightarrow> b \<in> S \<Longrightarrow> \<not> cmp a b \<le> 0 \<Longrightarrow> cmp b a \<le> 0"
    and trans: "\<And>a b c. a \<in> S \<Longrightarrow> b \<in> S \<Longrightarrow> c \<in> S \<Longrightarrow> cmp a b \<le> 0 \<Longrightarrow> cmp b c \<le> 0
                  \<Longrightarrow> cmp a c \<le> 0"
  shows "set xs \<subseteq> S \<Longrightarrow> sorted_wrt (\<lambda>a b. cmp a b \<le> 0) (js_sort cmp xs)"
proof (induction xs)
  case Nil
  show ?case by (simp add: js_sort_def)
next
  case (Cons x xs)
  from Cons.prems have x: "x \<in> S" and xs: "set xs \<subseteq> S" by simp_all
  have s: "set (foldr (js_insort cmp) xs []) \<subseteq> S"
    using xs mset_js_sort[of cmp xs] by (metis js_sort_def set_mset_mset)
  from Cons.IH[OF xs] have "sorted_wrt (\<lambda>a b. cmp a b \<le> 0) (foldr (js_insort cmp) xs [])"
    by (simp add: js_sort_def)
  from sorted_js_insort[of S cmp x, OF tot trans x s this]
  show ?case by (simp add: js_sort_def)
qed

text \<open>
  A collation compares a string equal to itself, and its ties are symmetric.  For two rows
  whose names do not tie unless they are equal, the comparison function of the sort is the
  order of the specification.
\<close>

lemma collation_refl: "collationPreorder lc \<Longrightarrow> lc x x = 0"
  unfolding collationPreorder_def by (metis less_asym linorder_neqE_linordered_idom)

lemma collation_sym_zero: "collationPreorder lc \<Longrightarrow> lc x y = 0 \<Longrightarrow> lc y x = 0"
  unfolding collationPreorder_def by (metis less_irrefl linorder_neqE_linordered_idom)

lemma planFactCompare_order:
  assumes c: "collationPreorder lc"
    and ap: "lc (projectName a) (projectName b) = 0 \<longrightarrow> projectName a = projectName b"
    and au: "lc (userName a) (userName b) = 0 \<longrightarrow> userName a = userName b"
  shows "(planFactCompare lc a b \<le> 0) = planFactOrder lc a b"
proof -
  have n: "\<And>x. \<not> lc x x < 0" using collation_refl[OF c] by simp
  show ?thesis
  proof (cases "projectName a = projectName b")
    case False
    with ap have "lc (projectName a) (projectName b) \<noteq> 0" by blast
    with False show ?thesis
      unfolding planFactCompare_def planFactOrder_def by auto
  next
    case True
    show ?thesis
    proof (cases "userName a = userName b")
      case False
      with au have "lc (userName a) (userName b) \<noteq> 0" by blast
      with True False n show ?thesis
        unfolding planFactCompare_def planFactOrder_def by auto
    next
      case U: True
      with True n show ?thesis
        unfolding planFactCompare_def planFactOrder_def by auto
    qed
  qed
qed

lemma planFactOrder_total:
  assumes c: "collationPreorder lc" and nab: "\<not> planFactOrder lc a b"
    and ap: "lc (projectName a) (projectName b) = 0 \<longrightarrow> projectName a = projectName b"
    and au: "lc (userName a) (userName b) = 0 \<longrightarrow> userName a = userName b"
  shows "planFactOrder lc b a"
proof -
  have f: "\<And>x y. (lc x y < 0) = (0 < lc y x)" using c by (simp add: collationPreorder_def)
  have t2: "\<And>x y. lc x y \<le> 0 \<or> lc y x \<le> 0"
    using f by (metis linorder_not_le order_less_imp_le)
  have tp: "projectName a \<noteq> projectName b \<Longrightarrow>
      lc (projectName a) (projectName b) < 0 \<or> lc (projectName b) (projectName a) < 0"
    using ap f by (metis linorder_neqE_linordered_idom)
  have tu: "userName a \<noteq> userName b \<Longrightarrow>
      lc (userName a) (userName b) < 0 \<or> lc (userName b) (userName a) < 0"
    using au f by (metis linorder_neqE_linordered_idom)
  show ?thesis
    using nab tp tu t2[of "taskTitle a" "taskTitle b"] unfolding planFactOrder_def
    by metis
qed

lemma planFactOrder_trans:
  assumes c: "collationPreorder lc" and ab: "planFactOrder lc a b" and bc: "planFactOrder lc b c"
    and ap: "lc (projectName a) (projectName c) = 0 \<longrightarrow> projectName a = projectName c"
    and au: "lc (userName a) (userName c) = 0 \<longrightarrow> userName a = userName c"
  shows "planFactOrder lc a c"
proof -
  have f: "\<And>x y. (lc x y < 0) = (0 < lc y x)" using c by (simp add: collationPreorder_def)
  have tr: "\<And>x y z. lc x y \<le> 0 \<Longrightarrow> lc y z \<le> 0 \<Longrightarrow> lc x z \<le> 0"
    using c unfolding collationPreorder_def by blast
  have stp: "\<And>y. lc (projectName a) y < 0 \<Longrightarrow> lc y (projectName c) < 0
      \<Longrightarrow> lc (projectName a) (projectName c) < 0"
  proof -
    fix y assume h: "lc (projectName a) y < 0" "lc y (projectName c) < 0"
    then have le: "lc (projectName a) (projectName c) \<le> 0" using tr by (meson less_imp_le)
    have "lc (projectName a) (projectName c) \<noteq> 0"
    proof
      assume "lc (projectName a) (projectName c) = 0"
      with ap have "projectName a = projectName c" by blast
      with h f show False by (metis less_asym)
    qed
    with le show "lc (projectName a) (projectName c) < 0" by simp
  qed
  have stu: "\<And>y. lc (userName a) y < 0 \<Longrightarrow> lc y (userName c) < 0
      \<Longrightarrow> lc (userName a) (userName c) < 0"
  proof -
    fix y assume h: "lc (userName a) y < 0" "lc y (userName c) < 0"
    then have le: "lc (userName a) (userName c) \<le> 0" using tr by (meson less_imp_le)
    have "lc (userName a) (userName c) \<noteq> 0"
    proof
      assume "lc (userName a) (userName c) = 0"
      with au have "userName a = userName c" by blast
      with h f show False by (metis less_asym)
    qed
    with le show "lc (userName a) (userName c) < 0" by simp
  qed
  consider (p1) "lc (projectName a) (projectName b) < 0"
    | (p2) "projectName a = projectName b" "lc (userName a) (userName b) < 0"
    | (p3) "projectName a = projectName b" "userName a = userName b" "\<not> isSummary a" "isSummary b"
    | (p4) "projectName a = projectName b" "userName a = userName b" "isSummary a = isSummary b"
           "lc (taskTitle a) (taskTitle b) \<le> 0"
    using ab unfolding planFactOrder_def by blast
  then show ?thesis
  proof cases
    case p1
    with bc stp[of "projectName b"] show ?thesis unfolding planFactOrder_def by metis
  next
    case p2
    with bc stu[of "userName b"] show ?thesis unfolding planFactOrder_def by metis
  next
    case p3
    with bc show ?thesis unfolding planFactOrder_def by metis
  next
    case p4
    with bc tr show ?thesis unfolding planFactOrder_def by metis
  qed
qed

lemma byteCompare_eq: "(byteCompare a b = 0) = (a = b)"
  by (induction a b rule: byteCompare.induct) auto

lemma byteCompare_flip: "(byteCompare a b < 0) = (0 < byteCompare b a)"
  by (induction a b rule: byteCompare.induct) auto

lemma byteCompare_trans:
  "byteCompare a b \<le> 0 \<Longrightarrow> byteCompare b c \<le> 0 \<Longrightarrow> byteCompare a c \<le> 0"
proof (induction a b arbitrary: c rule: byteCompare.induct)
  case 1
  then show ?case by simp
next
  case (2 y ys)
  then show ?case by (cases c) auto
next
  case (3 x xs)
  then show ?case by simp
next
  case (4 x xs y ys)
  show ?case
  proof (cases c)
    case Nil
    with 4 show ?thesis by (auto split: if_splits)
  next
    case (Cons z zs)
    with "4.prems" "4.IH"[of zs] show ?thesis
      by (auto split: if_splits)
  qed
qed

lemma collationPreorder_byteCompare: "collationPreorder byteCompare"
  unfolding collationPreorder_def
  using byteCompare_flip byteCompare_trans by blast

lemma namesApart_byteCompare: "namesApart byteCompare rows"
  unfolding namesApart_def by (simp add: byteCompare_eq)

lemma round64_values:
  "round64 0 = 0" "round64 1 = 1" "round64 2 = 2" "round64 3 = 3" "round64 (1 / 2) = 1 / 2"
  "round64 1800 = 1800" "round64 3600 = 3600" "round64 7200 = 7200"
  by code_simp+

lemmas pf_eval =
  processPlanFactData_def planFactGroups_def planFactStep_def addToGroup_def groupRows_def
  detailRows_def detailRow_def summaryRow_def planFactCompare_def pfActualHours_def
  pfPlannedHours_def buildUserMap_def displayName_def titleOf_def js_sort_def

lemma ledger_groups:
  "planFactGroups ledgerTasks [] Map.empty =
    [(''10-5'', \<lparr>ud_projectName = label_project @ ''10'', ud_userName = label_unassigned,
        ud_tasks = [(IntV 1, \<lparr>td_title = ''A'', td_actualHours = Num 3, td_plannedHours = Num 1\<rparr>)],
        totalActual = Num 3, totalPlanned = Num 1\<rparr>),
     (''10-6'', \<lparr>ud_projectName = label_project @ ''10'', ud_userName = label_unassigned,
        ud_tasks = [(IntV 2, \<lparr>td_title = ''B'', td_actualHours = Num (1 / 2), td_plannedHours = Num 1\<rparr>)],
        totalActual = Num (1 / 2), totalPlanned = Num 1\<rparr>)]"
  by (simp add: pf_eval js_eval round64_values ledgerTasks_def sampleTask_def)

lemma ledger_report:
  "processPlanFactData byteCompare ledgerTasks [] Map.empty =
    [detailRow (snd (planFactGroups ledgerTasks [] Map.empty ! 0))
       \<lparr>td_title = ''A'', td_actualHours = Num 3, td_plannedHours = Num 1\<rparr>,
     detailRow (snd (planFactGroups ledgerTasks [] Map.empty ! 1))
       \<lparr>td_title = ''B'', td_actualHours = Num (1 / 2), td_plannedHours = Num 1\<rparr>,
     summaryRow (snd (planFactGroups ledgerTasks [] Map.empty ! 0)),
     summaryRow (snd (planFactGroups ledgerTasks [] Map.empty ! 1))]"
  unfolding ledger_groups
  by (simp add: processPlanFactData_def ledger_groups groupRows_def detailRows_def detailRow_def
        summaryRow_def planFactCompare_def js_sort_def label_summary_def label_unassigned_def label_project_def)

text \<open>
  The key of a group names the project id and the user id: where the project ids have no
  minus sign in them, two tasks have the same key exactly when they have the same project
  id and the same user id.
\<close>

lemma digitChar_code: "d < 10 \<Longrightarrow> (of_char (digitChar d) :: nat) = 48 + d"
proof -
  assume "d < 10"
  then have "d \<in> set [0 ..< 10]" by simp
  then show ?thesis
    unfolding digitChar_def by (simp add: upt_rec) (elim disjE; simp)
qed

lemma digitChar_not_minus: "d < 10 \<Longrightarrow> digitChar d \<noteq> CHR ''-''"
  using digitChar_code[of d] by auto

lemma digitChar_not_N: "d < 10 \<Longrightarrow> digitChar d \<noteq> CHR ''N''"
  using digitChar_code[of d] by auto

lemma digitsToNat_natToString: "digitsToNat (natToString n) = n"
proof (induction n rule: natToString.induct)
  case (1 n)
  show ?case
  proof (cases "n < 10")
    case True
    then show ?thesis
      by (subst natToString.simps) (simp add: digitsToNat_def digitChar_code)
  next
    case False
    have m: "n mod 10 < 10" by simp
    from 1[OF False] have "digitsToNat (natToString (n div 10)) = n div 10" .
    then show ?thesis
      using False
      by (subst natToString.simps) (simp add: digitsToNat_def digitChar_code[OF m])
  qed
qed

lemma natToString_inj: "natToString a = natToString b \<Longrightarrow> a = b"
  by (metis digitsToNat_natToString)

lemma natToString_chars: "c \<in> set (natToString n) \<Longrightarrow> \<exists>d<10. c = digitChar d"
proof (induction n rule: natToString.induct)
  case (1 n)
  show ?case
  proof (cases "n < 10")
    case True
    with 1(2) show ?thesis by (subst (asm) natToString.simps) auto
  next
    case False
    have m: "n mod 10 < 10" by simp
    from 1(2) False have "c \<in> set (natToString (n div 10)) \<or> c = digitChar (n mod 10)"
      by (subst (asm) natToString.simps) auto
    with 1(1)[OF False] m show ?thesis by blast
  qed
qed

lemma natToString_nonempty: "natToString n \<noteq> []"
  by (subst natToString.simps) simp

lemma natToString_no_minus: "CHR ''-'' \<notin> set (natToString n)"
proof
  assume "CHR ''-'' \<in> set (natToString n)"
  from natToString_chars[OF this] obtain d where "d < 10" "CHR ''-'' = digitChar d" by auto
  with digitChar_not_minus[of d] show False by simp
qed

lemma intToString_inj: "intToString a = intToString b \<Longrightarrow> a = b"
proof -
  assume e: "intToString a = intToString b"
  have hd: "\<And>n. hd (natToString n) \<noteq> CHR ''-''"
    using natToString_no_minus natToString_nonempty by (metis hd_in_set)
  show ?thesis
  proof (cases "a < 0"; cases "b < 0")
    assume "a < 0" "b < 0"
    with e have "nat (- a) = nat (- b)" by (simp add: intToString_def natToString_inj)
    with \<open>a < 0\<close> \<open>b < 0\<close> show ?thesis by simp
  next
    assume "a < 0" "\<not> b < 0"
    with e have "CHR ''-'' # natToString (nat (- a)) = natToString (nat b)"
      by (simp add: intToString_def)
    then have "hd (natToString (nat b)) = CHR ''-''" by (metis list.sel(1))
    with hd show ?thesis by blast
  next
    assume "\<not> a < 0" "b < 0"
    with e have "natToString (nat a) = CHR ''-'' # natToString (nat (- b))"
      by (simp add: intToString_def)
    then have "hd (natToString (nat a)) = CHR ''-''" by (metis list.sel(1))
    with hd show ?thesis by blast
  next
    assume "\<not> a < 0" "\<not> b < 0"
    with e have "nat a = nat b" by (simp add: intToString_def natToString_inj)
    with \<open>\<not> a < 0\<close> \<open>\<not> b < 0\<close> show ?thesis by simp
  qed
qed

lemma intToString_not_NaN: "intToString a \<noteq> ''NaN''"
proof
  assume e: "intToString a = ''NaN''"
  show False
  proof (cases "a < 0")
    case True
    with e show ?thesis by (simp add: intToString_def)
  next
    case False
    with e have "natToString (nat a) = ''NaN''" by (simp add: intToString_def)
    then have "CHR ''N'' \<in> set (natToString (nat a))" by simp
    from natToString_chars[OF this] obtain d where "d < 10" "CHR ''N'' = digitChar d" by auto
    with digitChar_not_N[of d] show False by simp
  qed
qed

lemma numToString_inj: "numToString a = numToString b \<Longrightarrow> a = b"
  by (cases a; cases b) (auto simp: intToString_inj intToString_not_NaN dest: sym)

lemma key_split:
  "CHR ''-'' \<notin> set a \<Longrightarrow> CHR ''-'' \<notin> set a' \<Longrightarrow> a @ ''-'' @ u = a' @ ''-'' @ u'
     \<Longrightarrow> a = a' \<and> u = u'"
proof (induction a arbitrary: a')
  case Nil
  then show ?case by (cases a') auto
next
  case (Cons c cs)
  then show ?case by (cases a') auto
qed

lemma groupKey_pairs:
  assumes "CHR ''-'' \<notin> set (toString (groupId t))" "CHR ''-'' \<notin> set (toString (groupId t'))"
  shows "(groupKey t = groupKey t')
           = (toString (groupId t) = toString (groupId t')
              \<and> parseInt (responsibleId t) = parseInt (responsibleId t'))"
  using key_split[OF assms] numToString_inj unfolding groupKey_def by metis

lemma groupRows_summary: "filter isSummary (groupRows ud) = [summaryRow ud]"
  by (simp add: groupRows_def detailRows_def detailRow_def summaryRow_def filter_empty_conv)

lemma groupRows_details: "filter (\<lambda>r. \<not> isSummary r) (groupRows ud) = detailRows ud"
  by (simp add: groupRows_def detailRows_def detailRow_def summaryRow_def filter_id_conv)

lemma count_summary_rows:
  "length (filter isSummary (concat (map (\<lambda>e. groupRows (snd e)) gs))) = length gs"
  by (induction gs) (simp_all add: groupRows_summary)

lemma detailRows_hours:
  "map actualHours (detailRows ud) = map (\<lambda>e. td_actualHours (snd e)) (ud_tasks ud)"
  "map plannedHours (detailRows ud) = map (\<lambda>e. td_plannedHours (snd e)) (ud_tasks ud)"
  by (simp_all add: detailRows_def detailRow_def)

lemma foldl_planFactStep_filter:
  "foldl (planFactStep um pm) acc ts = foldl (planFactStep um pm) acc (filter included ts)"
  by (induction ts arbitrary: acc) (simp_all add: planFactStep_excluded)

lemma planFactGroups_group:
  assumes "e \<in> set (planFactGroups tasks users pm)"
  shows "groupInv tasks (fst e) (snd e)"
  using assms planFactGroups_invariant[of "buildUserMap users" pm tasks]
  unfolding planFactGroups_def by (cases e) auto

lemma add64_zero_hours: "add64 (Num 0) (hours64 v) = hours64 v"
  by (cases v) (simp_all add: round64_idem)

lemma add64_zero_pf:
  "add64 (Num 0) (pfActualHours t) = pfActualHours t"
  "add64 (Num 0) (pfPlannedHours t) = pfPlannedHours t"
  by (simp_all add: pfActualHours_def pfPlannedHours_def add64_zero_hours)

lemma filter_same_key:
  "distinct (map f xs) \<Longrightarrow> x \<in> set xs \<Longrightarrow> filter (\<lambda>y. f y = f x) xs = [x]"
proof (induction xs)
  case Nil
  then show ?case by simp
next
  case (Cons a xs)
  show ?case
  proof (cases "x = a")
    case True
    from Cons.prems(1) have "\<forall>y \<in> set xs. f y \<noteq> f a" by (auto simp: image_iff)
    then have "filter (\<lambda>y. f y = f a) xs = []" by (simp add: filter_empty_conv)
    with True show ?thesis by simp
  next
    case False
    with Cons.prems have x: "x \<in> set xs" and d: "distinct (map f xs)" by simp_all
    from Cons.prems(1) x have "f a \<noteq> f x" by (auto simp: image_iff)
    with Cons.IH[OF d x] show ?thesis by simp
  qed
qed

text \<open>
  Where no task id occurs twice in a group, the task entries of the group carry the hours
  of its tasks, in input order.
\<close>

lemma entry_hours_distinct:
  assumes "distinct (map t_id ts)"
  shows "map (\<lambda>i. total64 (map pfActualHours (filter (\<lambda>t. t_id t = i) ts))) (map t_id ts)
           = map pfActualHours ts"
    and "map (\<lambda>i. total64 (map pfPlannedHours (filter (\<lambda>t. t_id t = i) ts))) (map t_id ts)
           = map pfPlannedHours ts"
proof -
  have one: "\<And>t. t \<in> set ts \<Longrightarrow> filter (\<lambda>t'. t_id t' = t_id t) ts = [t]"
    using assms by (rule filter_same_key)
  show "map (\<lambda>i. total64 (map pfActualHours (filter (\<lambda>t. t_id t = i) ts))) (map t_id ts)
           = map pfActualHours ts"
    by (simp add: one total64_def add64_zero_pf)
  show "map (\<lambda>i. total64 (map pfPlannedHours (filter (\<lambda>t. t_id t = i) ts))) (map t_id ts)
           = map pfPlannedHours ts"
    by (simp add: one total64_def add64_zero_pf)
qed

lemma group_hours:
  assumes gi: "groupInv tasks k ud"
  shows "actualHours (summaryRow ud) = total64 (map pfActualHours (groupTasks k tasks))"
    and "plannedHours (summaryRow ud) = total64 (map pfPlannedHours (groupTasks k tasks))"
    and "map actualHours (detailRows ud)
           = map (\<lambda>i. total64 (map pfActualHours (filter (\<lambda>t. t_id t = i) (groupTasks k tasks))))
               (firstSeen (map t_id (groupTasks k tasks)))"
    and "map plannedHours (detailRows ud)
           = map (\<lambda>i. total64 (map pfPlannedHours (filter (\<lambda>t. t_id t = i) (groupTasks k tasks))))
               (firstSeen (map t_id (groupTasks k tasks)))"
proof -
  from gi have ord: "map fst (ud_tasks ud) = firstSeen (map t_id (groupTasks k tasks))"
    and ta: "totalActual ud = total64 (map pfActualHours (groupTasks k tasks))"
    and tp: "totalPlanned ud = total64 (map pfPlannedHours (groupTasks k tasks))"
    and en: "\<And>e. e \<in> set (ud_tasks ud) \<Longrightarrow>
            td_actualHours (snd e)
              = total64 (map pfActualHours (filter (\<lambda>t. t_id t = fst e) (groupTasks k tasks)))
            \<and> td_plannedHours (snd e)
              = total64 (map pfPlannedHours (filter (\<lambda>t. t_id t = fst e) (groupTasks k tasks)))"
    unfolding groupInv_def by blast+
  show "actualHours (summaryRow ud) = total64 (map pfActualHours (groupTasks k tasks))"
    using ta by (simp add: summaryRow_def)
  show "plannedHours (summaryRow ud) = total64 (map pfPlannedHours (groupTasks k tasks))"
    using tp by (simp add: summaryRow_def)
  have "map actualHours (detailRows ud)
      = map (\<lambda>e. total64 (map pfActualHours (filter (\<lambda>t. t_id t = fst e) (groupTasks k tasks)))) (ud_tasks ud)"
    unfolding detailRows_hours using en by simp
  also have "\<dots> = map (\<lambda>i. total64 (map pfActualHours (filter (\<lambda>t. t_id t = i) (groupTasks k tasks))))
               (map fst (ud_tasks ud))"
    by simp
  finally show "map actualHours (detailRows ud)
           = map (\<lambda>i. total64 (map pfActualHours (filter (\<lambda>t. t_id t = i) (groupTasks k tasks))))
               (firstSeen (map t_id (groupTasks k tasks)))"
    unfolding ord .
  have "map plannedHours (detailRows ud)
      = map (\<lambda>e. total64 (map pfPlannedHours (filter (\<lambda>t. t_id t = fst e) (groupTasks k tasks)))) (ud_tasks ud)"
    unfolding detailRows_hours using en by simp
  also have "\<dots> = map (\<lambda>i. total64 (map pfPlannedHours (filter (\<lambda>t. t_id t = i) (groupTasks k tasks))))
               (map fst (ud_tasks ud))"
    by simp
  finally show "map plannedHours (detailRows ud)
           = map (\<lambda>i. total64 (map pfPlannedHours (filter (\<lambda>t. t_id t = i) (groupTasks k tasks))))
               (firstSeen (map t_id (groupTasks k tasks)))"
    unfolding ord .
qed

lemma group_hours_distinct:
  assumes gi: "groupInv tasks k ud" and d: "distinct (map t_id (groupTasks k tasks))"
  shows "actualHours (summaryRow ud) = total64 (map actualHours (detailRows ud))"
    and "plannedHours (summaryRow ud) = total64 (map plannedHours (detailRows ud))"
proof -
  note h = group_hours[OF gi]
  show "actualHours (summaryRow ud) = total64 (map actualHours (detailRows ud))"
    unfolding h(1) h(3) firstSeen_distinct[OF d] entry_hours_distinct(1)[OF d] ..
  show "plannedHours (summaryRow ud) = total64 (map plannedHours (detailRows ud))"
    unfolding h(2) h(4) firstSeen_distinct[OF d] entry_hours_distinct(2)[OF d] ..
qed

text \<open>
  The quotients and sums that the host computes for tasks of 60, 60 and 180 seconds, the
  first and the third with the same id.
\<close>

lemma rounding_steps:
  "hours64 (Some 0) = Num 0"
  "hours64 (Some 60) = Num (4803839602528529 / 288230376151711744)"
  "hours64 (Some 180) = Num (3602879701896397 / 72057594037927936)"
  "add64 (Num 0) (Num 0) = Num 0"
  "add64 (Num 0) (Num (4803839602528529 / 288230376151711744))
     = Num (4803839602528529 / 288230376151711744)"
  "add64 (Num (4803839602528529 / 288230376151711744)) (Num (4803839602528529 / 288230376151711744))
     = Num (4803839602528529 / 144115188075855872)"
  "add64 (Num (4803839602528529 / 288230376151711744)) (Num (3602879701896397 / 72057594037927936))
     = Num (4803839602528529 / 72057594037927936)"
  "add64 (Num (4803839602528529 / 144115188075855872)) (Num (3602879701896397 / 72057594037927936))
     = Num (3002399751580331 / 36028797018963968)"
  by code_simp+

lemma rounding_groups:
  "planFactGroups roundingTasks [] Map.empty =
    [(''10-5'', \<lparr>ud_projectName = label_project @ ''10'', ud_userName = label_unassigned,
        ud_tasks = [(IntV 1, \<lparr>td_title = ''A'',
                       td_actualHours = Num (4803839602528529 / 72057594037927936),
                       td_plannedHours = Num 0\<rparr>),
                    (IntV 2, \<lparr>td_title = ''B'',
                       td_actualHours = Num (4803839602528529 / 288230376151711744),
                       td_plannedHours = Num 0\<rparr>)],
        totalActual = Num (3002399751580331 / 36028797018963968), totalPlanned = Num 0\<rparr>)]"
  by (simp add: pf_eval js_eval rounding_steps roundingTasks_def sampleTask_def
        del: add64.simps hours64.simps)

lemma rounding_report:
  "processPlanFactData byteCompare roundingTasks [] Map.empty =
     groupRows (snd (hd (planFactGroups roundingTasks [] Map.empty)))"
  unfolding processPlanFactData_def rounding_groups
  by (simp add: groupRows_def detailRows_def detailRow_def summaryRow_def planFactCompare_def
        js_sort_def label_summary_def)

lemma rounding_sum:
  "add64 (Num (4803839602528529 / 72057594037927936)) (Num (4803839602528529 / 288230376151711744))
     = Num (6004799503160661 / 72057594037927936)"
  by code_simp

text \<open>
  C1, as stated, fails.  Tasks 1, 2 and 1 again, of 60, 60 and 180 seconds, make one
  group with two detail rows.  The summary row carries
  \<^verbatim>\<open>((60/3600 + 60/3600) + 180/3600)\<close>, which is \<^verbatim>\<open>0.08333333333333334\<close>; the detail
  rows carry \<^verbatim>\<open>60/3600 + 180/3600\<close> and \<^verbatim>\<open>60/3600\<close>, whose sum is
  \<^verbatim>\<open>0.08333333333333333\<close>; their exact sum is not the total of the summary row
  either.
\<close>

theorem planfact_summary_not_sum_of_details:
  "map isSummary (processPlanFactData byteCompare roundingTasks [] Map.empty) = [False, False, True]
   \<and> map actualHours (processPlanFactData byteCompare roundingTasks [] Map.empty)
       = [Num (4803839602528529 / 72057594037927936),
          Num (4803839602528529 / 288230376151711744),
          Num (3002399751580331 / 36028797018963968)]
   \<and> add64 (Num (4803839602528529 / 72057594037927936)) (Num (4803839602528529 / 288230376151711744))
       = Num (6004799503160661 / 72057594037927936)
   \<and> Num (6004799503160661 / 72057594037927936) \<noteq> Num (3002399751580331 / 36028797018963968)
   \<and> Num (4803839602528529 / 72057594037927936) + Num (4803839602528529 / 288230376151711744)
       \<noteq> Num (3002399751580331 / 36028797018963968)"
  unfolding rounding_report rounding_groups rounding_sum
  by (simp add: groupRows_def detailRows_def detailRow_def summaryRow_def)

text \<open>
  C4, as stated, fails: a task with a project id and no responsible user is left out, and
  so is a task with a responsible user and no project id.
\<close>

theorem planfact_drops_task_lacking_one_id: "truthy (groupId taskNoUser)
   \<and> processPlanFactData byteCompare [taskNoUser] sampleUsers Map.empty = []
   \<and> truthy (responsibleId taskNoProject)
   \<and> processPlanFactData byteCompare [taskNoProject] sampleUsers Map.empty = []"
  by (simp add: taskNoUser_def taskNoProject_def sampleTask_def processPlanFactData_def
        planFactGroups_def planFactStep_def js_sort_def)

text \<open>
  C5.  In \<^verbatim>\<open>processPlanFactData\<close> an estimate that is not a number gives planned
  hours \<open>NaN\<close>, not 0: the value is truthy, \<^verbatim>\<open>parseInt\<close> gives \<open>NaN\<close>, and nothing
  tests for it.  \<^verbatim>\<open>processProjectResources\<close> tests \<^verbatim>\<open>isNaN\<close> and gives 0 for the same
  task.
\<close>

theorem planfact_nonnumeric_hours_are_NaN: "parseInt (timeEstimate (chainTasks ! 1)) = None
   \<and> pfPlannedHours (chainTasks ! 1) = NaN
   \<and> resPlannedHours (chainTasks ! 1) = Num 0
   \<and> map plannedHours (processPlanFactData byteCompare [chainTasks ! 1] sampleUsers Map.empty) = [NaN, NaN]"
  by (simp add: pf_eval js_eval sample_eval resPlannedHours_def)

theorem planfact_nonnumeric_hours_are_NaN_witness:
  "map plannedHours (processPlanFactData byteCompare [chainTasks ! 1] sampleUsers Map.empty)
     \<noteq> [Num 0, Num 0]"
  using planfact_nonnumeric_hours_are_NaN by simp

lemma ledger_groupTasks:
  "groupTasks ''10-5'' ledgerTasks = [ledgerTasks ! 0, ledgerTasks ! 2]"
  "groupTasks ''10-6'' ledgerTasks = [ledgerTasks ! 1]"
  by (simp_all add: groupTasks_def included_def groupKey_def ledgerTasks_def sampleTask_def js_eval)

text \<open>
  C1, amended.  The rows of \<^verbatim>\<open>processPlanFactData\<close> are the rows of the groups,
  rearranged by the sort.  The groups are the distinct keys (project id, user id) of the
  tasks that pass the guard; each group contributes its detail rows, of which there is at
  least one, and exactly one summary row, so the report has as many summary rows as there
  are groups.  The hours of the summary row of a group are the running totals, in
  binary64, of the hours of the tasks of the group in input order; the detail rows of the
  group are those of its distinct task ids in the order of their first occurrence, and the
  hours of a detail row are the running totals of the hours of the tasks of the group with
  that id.  Where no task id occurs twice in the group, the hours of the summary row are
  the running totals of the hours of the detail rows of the group, in that order.  The
  key of a group is the pair of the project id and the user id, as long as no project id
  contains a minus sign.  The function has no state of its own (its maps are local), so a
  second run on the same input gives the same rows.
\<close>

theorem planfact_summary_rows:
  "mset (processPlanFactData lc tasks users projectMap)
     = mset (concat (map (\<lambda>e. groupRows (snd e)) (planFactGroups tasks users projectMap)))
   \<and> distinct (map fst (planFactGroups tasks users projectMap))
   \<and> set (map fst (planFactGroups tasks users projectMap)) = groupKey ` {t \<in> set tasks. included t}
   \<and> length (filter isSummary (processPlanFactData lc tasks users projectMap))
       = card (groupKey ` {t \<in> set tasks. included t})
   \<and> (\<forall>e \<in> set (planFactGroups tasks users projectMap).
         groupRows (snd e) = detailRows (snd e) @ [summaryRow (snd e)]
         \<and> detailRows (snd e) \<noteq> []
         \<and> filter isSummary (groupRows (snd e)) = [summaryRow (snd e)]
         \<and> actualHours (summaryRow (snd e)) = total64 (map pfActualHours (groupTasks (fst e) tasks))
         \<and> plannedHours (summaryRow (snd e)) = total64 (map pfPlannedHours (groupTasks (fst e) tasks))
         \<and> map actualHours (detailRows (snd e))
             = map (\<lambda>i. total64 (map pfActualHours (filter (\<lambda>t. t_id t = i) (groupTasks (fst e) tasks))))
                 (firstSeen (map t_id (groupTasks (fst e) tasks)))
         \<and> map plannedHours (detailRows (snd e))
             = map (\<lambda>i. total64 (map pfPlannedHours (filter (\<lambda>t. t_id t = i) (groupTasks (fst e) tasks))))
                 (firstSeen (map t_id (groupTasks (fst e) tasks)))
         \<and> (distinct (map t_id (groupTasks (fst e) tasks)) \<longrightarrow>
               actualHours (summaryRow (snd e)) = total64 (map actualHours (detailRows (snd e)))
               \<and> plannedHours (summaryRow (snd e)) = total64 (map plannedHours (detailRows (snd e)))))
   \<and> (CHR ''-'' \<notin> set (toString (groupId t)) \<and> CHR ''-'' \<notin> set (toString (groupId t')) \<longrightarrow>
        (groupKey t = groupKey t')
          = (toString (groupId t) = toString (groupId t')
             \<and> parseInt (responsibleId t) = parseInt (responsibleId t')))"
proof -
  let ?gs = "planFactGroups tasks users projectMap"
  have kp: "CHR ''-'' \<notin> set (toString (groupId t)) \<and> CHR ''-'' \<notin> set (toString (groupId t')) \<longrightarrow>
        (groupKey t = groupKey t')
          = (toString (groupId t) = toString (groupId t')
             \<and> parseInt (responsibleId t) = parseInt (responsibleId t'))"
    using groupKey_pairs[of t t'] by blast
  have d: "distinct (map fst ?gs)"
    and ks: "set (map fst ?gs) = groupKey ` {t \<in> set tasks. included t}"
    using planFactGroups_invariant[of "buildUserMap users" projectMap tasks]
    unfolding planFactGroups_def by auto
  have m: "mset (processPlanFactData lc tasks users projectMap)
     = mset (concat (map (\<lambda>e. groupRows (snd e)) ?gs))"
    by (simp add: processPlanFactData_def mset_js_sort)
  have "length (filter isSummary (processPlanFactData lc tasks users projectMap)) = length ?gs"
    by (simp add: processPlanFactData_def length_filter_js_sort count_summary_rows)
  also have "\<dots> = card (set (map fst ?gs))"
    using distinct_card[OF d] by simp
  finally have n: "length (filter isSummary (processPlanFactData lc tasks users projectMap))
       = card (groupKey ` {t \<in> set tasks. included t})"
    by (simp only: ks)
  have g: "\<forall>e \<in> set ?gs.
         groupRows (snd e) = detailRows (snd e) @ [summaryRow (snd e)]
         \<and> detailRows (snd e) \<noteq> []
         \<and> filter isSummary (groupRows (snd e)) = [summaryRow (snd e)]
         \<and> actualHours (summaryRow (snd e)) = total64 (map pfActualHours (groupTasks (fst e) tasks))
         \<and> plannedHours (summaryRow (snd e)) = total64 (map pfPlannedHours (groupTasks (fst e) tasks))
         \<and> map actualHours (detailRows (snd e))
             = map (\<lambda>i. total64 (map pfActualHours (filter (\<lambda>t. t_id t = i) (groupTasks (fst e) tasks))))
                 (firstSeen (map t_id (groupTasks (fst e) tasks)))
         \<and> map plannedHours (detailRows (snd e))
             = map (\<lambda>i. total64 (map pfPlannedHours (filter (\<lambda>t. t_id t = i) (groupTasks (fst e) tasks))))
                 (firstSeen (map t_id (groupTasks (fst e) tasks)))
         \<and> (distinct (map t_id (groupTasks (fst e) tasks)) \<longrightarrow>
               actualHours (summaryRow (snd e)) = total64 (map actualHours (detailRows (snd e)))
               \<and> plannedHours (summaryRow (snd e)) = total64 (map plannedHours (detailRows (snd e))))"
  proof
    fix e assume "e \<in> set ?gs"
    from planFactGroups_group[OF this] have gi: "groupInv tasks (fst e) (snd e)" .
    then have ne: "detailRows (snd e) \<noteq> []"
      by (simp add: groupInv_def detailRows_def)
    have r: "groupRows (snd e) = detailRows (snd e) @ [summaryRow (snd e)]"
      by (simp add: groupRows_def)
    note h = group_hours[OF gi]
    have dd: "distinct (map t_id (groupTasks (fst e) tasks)) \<longrightarrow>
               actualHours (summaryRow (snd e)) = total64 (map actualHours (detailRows (snd e)))
               \<and> plannedHours (summaryRow (snd e)) = total64 (map plannedHours (detailRows (snd e)))"
      using group_hours_distinct[OF gi] by blast
    from r ne groupRows_summary[of "snd e"] h dd
    show "groupRows (snd e) = detailRows (snd e) @ [summaryRow (snd e)]
         \<and> detailRows (snd e) \<noteq> []
         \<and> filter isSummary (groupRows (snd e)) = [summaryRow (snd e)]
         \<and> actualHours (summaryRow (snd e)) = total64 (map pfActualHours (groupTasks (fst e) tasks))
         \<and> plannedHours (summaryRow (snd e)) = total64 (map pfPlannedHours (groupTasks (fst e) tasks))
         \<and> map actualHours (detailRows (snd e))
             = map (\<lambda>i. total64 (map pfActualHours (filter (\<lambda>t. t_id t = i) (groupTasks (fst e) tasks))))
                 (firstSeen (map t_id (groupTasks (fst e) tasks)))
         \<and> map plannedHours (detailRows (snd e))
             = map (\<lambda>i. total64 (map pfPlannedHours (filter (\<lambda>t. t_id t = i) (groupTasks (fst e) tasks))))
                 (firstSeen (map t_id (groupTasks (fst e) tasks)))
         \<and> (distinct (map t_id (groupTasks (fst e) tasks)) \<longrightarrow>
               actualHours (summaryRow (snd e)) = total64 (map actualHours (detailRows (snd e)))
               \<and> plannedHours (summaryRow (snd e)) = total64 (map plannedHours (detailRows (snd e))))"
      by (intro conjI)
  qed
  from m d ks n g kp show ?thesis by (intro conjI)
qed

theorem planfact_summary_rows_witness:
  "planFactGroups ledgerTasks [] Map.empty ! 0 \<in> set (planFactGroups ledgerTasks [] Map.empty)
   \<and> planFactGroups ledgerTasks [] Map.empty ! 1 \<in> set (planFactGroups ledgerTasks [] Map.empty)
   \<and> actualHours (summaryRow (snd (planFactGroups ledgerTasks [] Map.empty ! 0)))
       = total64 [pfActualHours (ledgerTasks ! 0), pfActualHours (ledgerTasks ! 2)]
   \<and> actualHours (summaryRow (snd (planFactGroups ledgerTasks [] Map.empty ! 0))) = Num 3
   \<and> distinct (map t_id (groupTasks ''10-6'' ledgerTasks))
   \<and> actualHours (summaryRow (snd (planFactGroups ledgerTasks [] Map.empty ! 1)))
       = total64 (map actualHours (detailRows (snd (planFactGroups ledgerTasks [] Map.empty ! 1))))
   \<and> total64 (map actualHours (detailRows (snd (planFactGroups ledgerTasks [] Map.empty ! 1)))) = Num (1 / 2)
   \<and> length (filter isSummary (processPlanFactData byteCompare ledgerTasks [] Map.empty)) = 2
   \<and> CHR ''-'' \<notin> set (toString (groupId (ledgerTasks ! 0)))
   \<and> CHR ''-'' \<notin> set (toString (groupId (ledgerTasks ! 1)))
   \<and> groupKey (ledgerTasks ! 0) \<noteq> groupKey (ledgerTasks ! 1)"
proof -
  note T = planfact_summary_rows[where lc = byteCompare and tasks = ledgerTasks and users = "[]"
      and projectMap = Map.empty and t = "ledgerTasks ! 0" and t' = "ledgerTasks ! 1"]
  let ?gs = "planFactGroups ledgerTasks [] Map.empty"
  have m0: "?gs ! 0 \<in> set ?gs" and m1: "?gs ! 1 \<in> set ?gs"
    unfolding ledger_groups by simp_all
  have k0: "fst (?gs ! 0) = ''10-5''" and k1: "fst (?gs ! 1) = ''10-6''"
    unfolding ledger_groups by simp_all
  from T m0 have "actualHours (summaryRow (snd (?gs ! 0)))
      = total64 (map pfActualHours (groupTasks (fst (?gs ! 0)) ledgerTasks))"
    by blast
  then have s0: "actualHours (summaryRow (snd (?gs ! 0)))
      = total64 [pfActualHours (ledgerTasks ! 0), pfActualHours (ledgerTasks ! 2)]"
    unfolding k0 ledger_groupTasks by simp
  have v0: "actualHours (summaryRow (snd (?gs ! 0))) = Num 3"
    unfolding ledger_groups by (simp add: summaryRow_def)
  have d1: "distinct (map t_id (groupTasks ''10-6'' ledgerTasks))"
    unfolding ledger_groupTasks by simp
  from T m1 have "distinct (map t_id (groupTasks (fst (?gs ! 1)) ledgerTasks)) \<longrightarrow>
      actualHours (summaryRow (snd (?gs ! 1))) = total64 (map actualHours (detailRows (snd (?gs ! 1))))"
    by blast
  with d1 have s1: "actualHours (summaryRow (snd (?gs ! 1)))
      = total64 (map actualHours (detailRows (snd (?gs ! 1))))"
    unfolding k1 by blast
  have "actualHours (summaryRow (snd (?gs ! 1))) = Num (1 / 2)"
    unfolding ledger_groups by (simp add: summaryRow_def)
  with s1 have v1: "total64 (map actualHours (detailRows (snd (?gs ! 1)))) = Num (1 / 2)"
    by simp
  have n: "length (filter isSummary (processPlanFactData byteCompare ledgerTasks [] Map.empty)) = 2"
    unfolding ledger_report by (simp add: detailRow_def summaryRow_def)
  have g0: "CHR ''-'' \<notin> set (toString (groupId (ledgerTasks ! 0)))"
    and g1: "CHR ''-'' \<notin> set (toString (groupId (ledgerTasks ! 1)))"
    by (simp_all add: ledgerTasks_def sampleTask_def js_eval)
  have u: "parseInt (responsibleId (ledgerTasks ! 0)) \<noteq> parseInt (responsibleId (ledgerTasks ! 1))"
    by (simp add: ledgerTasks_def sampleTask_def)
  from T g0 g1 u have k: "groupKey (ledgerTasks ! 0) \<noteq> groupKey (ledgerTasks ! 1)"
    by blast
  from m0 m1 s0 v0 d1 s1 v1 n g0 g1 k show ?thesis by (intro conjI)
qed

lemma groupRows_names:
  "r \<in> set (groupRows ud) \<Longrightarrow> projectName r = ud_projectName ud \<and> userName r = ud_userName ud"
  by (auto simp: groupRows_def detailRows_def detailRow_def summaryRow_def)

lemma planFactGroups_group_names:
  assumes "e \<in> set (planFactGroups tasks users pm)"
  shows "groupTasks (fst e) tasks \<noteq> []"
    and "ud_userName (snd e)
           = displayName (buildUserMap users (parseInt (responsibleId (hd (groupTasks (fst e) tasks)))))"
    and "ud_projectName (snd e)
           = (case pm (parseInt (groupId (hd (groupTasks (fst e) tasks)))) of
                Some p \<Rightarrow> P_NAME p
              | None \<Rightarrow> label_project @ toString (groupId (hd (groupTasks (fst e) tasks))))"
proof -
  obtain k ud where e: "e = (k, ud)" by (cases e)
  with assms have "(k, ud) \<in> set (foldl (planFactStep (buildUserMap users) pm) [] tasks)"
    by (simp add: planFactGroups_def)
  with planFactGroups_names[of "buildUserMap users" pm tasks]
  have n: "groupTasks k tasks \<noteq> []
      \<and> ud_projectName ud = ud_projectName (newGroup (buildUserMap users) pm (hd (groupTasks k tasks)))
      \<and> ud_userName ud = ud_userName (newGroup (buildUserMap users) pm (hd (groupTasks k tasks)))"
    by blast
  have fe: "fst e = k" "snd e = ud" by (simp_all add: e)
  show "groupTasks (fst e) tasks \<noteq> []"
    unfolding fe using n by simp
  show "ud_userName (snd e)
           = displayName (buildUserMap users (parseInt (responsibleId (hd (groupTasks (fst e) tasks)))))"
    unfolding fe using n by (simp add: newGroup_def)
  show "ud_projectName (snd e)
           = (case pm (parseInt (groupId (hd (groupTasks (fst e) tasks)))) of
                Some p \<Rightarrow> P_NAME p
              | None \<Rightarrow> label_project @ toString (groupId (hd (groupTasks (fst e) tasks))))"
    unfolding fe using n by (simp add: newGroup_def)
qed

lemma mixed_groups:
  "planFactGroups (ledgerTasks @ [taskNoUser, taskElsewhere]) sampleUsers sampleProjectMap =
    [(''10-5'', \<lparr>ud_projectName = ''Proj'', ud_userName = ''Ann K'',
        ud_tasks = [(IntV 1, \<lparr>td_title = ''A'', td_actualHours = Num 3, td_plannedHours = Num 1\<rparr>)],
        totalActual = Num 3, totalPlanned = Num 1\<rparr>),
     (''10-6'', \<lparr>ud_projectName = ''Proj'', ud_userName = label_unassigned,
        ud_tasks = [(IntV 2, \<lparr>td_title = ''B'', td_actualHours = Num (1 / 2), td_plannedHours = Num 1\<rparr>)],
        totalActual = Num (1 / 2), totalPlanned = Num 1\<rparr>),
     (''11-5'', \<lparr>ud_projectName = label_project @ ''11'', ud_userName = ''Ann K'',
        ud_tasks = [(IntV 9, \<lparr>td_title = ''Z'', td_actualHours = Num 1, td_plannedHours = Num 1\<rparr>)],
        totalActual = Num 1, totalPlanned = Num 1\<rparr>)]"
  by code_simp

text \<open>
  C4, amended.  \<^verbatim>\<open>processPlanFactData\<close> leaves a task out exactly when it lacks a
  project id or a responsible-user id: the groups and the report are those of the tasks
  that have both, the keys of the groups are the keys of those tasks, and each group has
  one task entry, and one detail row, for each distinct id among those of its tasks.  The
  fallbacks are for ids that are present and match nothing: the rows of a group carry the
  names computed from the first task of the group, the user name being the display name
  of the user that \<^verbatim>\<open>userMap\<close> holds for the parsed responsible id (the last user of
  the list with that parsed \<^verbatim>\<open>ID\<close>), or the "unassigned" label when no user has it,
  and the project name being the \<^verbatim>\<open>NAME\<close> found in the project map under the parsed
  project id, or the project label followed by the project id when there is none.
\<close>

theorem planfact_discard_rule:
  "planFactGroups tasks users projectMap
     = planFactGroups (filter (\<lambda>t. truthy (groupId t) \<and> truthy (responsibleId t)) tasks) users projectMap
   \<and> processPlanFactData lc tasks users projectMap
     = processPlanFactData lc (filter (\<lambda>t. truthy (groupId t) \<and> truthy (responsibleId t)) tasks)
         users projectMap
   \<and> set (map fst (planFactGroups tasks users projectMap))
     = groupKey ` {t \<in> set tasks. truthy (groupId t) \<and> truthy (responsibleId t)}
   \<and> (\<forall>e \<in> set (planFactGroups tasks users projectMap).
         fst ` set (ud_tasks (snd e))
           = t_id ` {t \<in> set tasks. truthy (groupId t) \<and> truthy (responsibleId t) \<and> groupKey t = fst e}
         \<and> length (detailRows (snd e))
           = card (t_id ` {t \<in> set tasks. truthy (groupId t) \<and> truthy (responsibleId t)
                                          \<and> groupKey t = fst e})
         \<and> groupTasks (fst e) tasks
           = filter (\<lambda>t. (truthy (groupId t) \<and> truthy (responsibleId t)) \<and> groupKey t = fst e) tasks
         \<and> groupTasks (fst e) tasks \<noteq> []
         \<and> ud_userName (snd e)
           = displayName (buildUserMap users (parseInt (responsibleId (hd (groupTasks (fst e) tasks)))))
         \<and> ((\<forall>u \<in> set users. parseInt (ID u) \<noteq> parseInt (responsibleId (hd (groupTasks (fst e) tasks))))
              \<longrightarrow> ud_userName (snd e) = label_unassigned)
         \<and> ud_projectName (snd e)
           = (case projectMap (parseInt (groupId (hd (groupTasks (fst e) tasks)))) of
                Some p \<Rightarrow> P_NAME p
              | None \<Rightarrow> label_project @ toString (groupId (hd (groupTasks (fst e) tasks))))
         \<and> (\<forall>r \<in> set (groupRows (snd e)).
               projectName r = ud_projectName (snd e) \<and> userName r = ud_userName (snd e)))"
proof -
  let ?gs = "planFactGroups tasks users projectMap"
  have inc: "included = (\<lambda>t. truthy (groupId t) \<and> truthy (responsibleId t))"
    by (auto simp: included_def)
  have f: "?gs = planFactGroups (filter included tasks) users projectMap"
    unfolding planFactGroups_def by (rule foldl_planFactStep_filter)
  then have p: "processPlanFactData lc tasks users projectMap
     = processPlanFactData lc (filter included tasks) users projectMap"
    by (simp add: processPlanFactData_def)
  have ks: "set (map fst ?gs) = groupKey ` {t \<in> set tasks. included t}"
    using planFactGroups_invariant[of "buildUserMap users" projectMap tasks]
    unfolding planFactGroups_def by auto
  have g: "\<forall>e \<in> set ?gs.
         fst ` set (ud_tasks (snd e)) = t_id ` {t \<in> set tasks. included t \<and> groupKey t = fst e}
         \<and> length (detailRows (snd e))
           = card (t_id ` {t \<in> set tasks. included t \<and> groupKey t = fst e})
         \<and> groupTasks (fst e) tasks = filter (\<lambda>t. included t \<and> groupKey t = fst e) tasks
         \<and> groupTasks (fst e) tasks \<noteq> []
         \<and> ud_userName (snd e)
           = displayName (buildUserMap users (parseInt (responsibleId (hd (groupTasks (fst e) tasks)))))
         \<and> ((\<forall>u \<in> set users. parseInt (ID u) \<noteq> parseInt (responsibleId (hd (groupTasks (fst e) tasks))))
              \<longrightarrow> ud_userName (snd e) = label_unassigned)
         \<and> ud_projectName (snd e)
           = (case projectMap (parseInt (groupId (hd (groupTasks (fst e) tasks)))) of
                Some p \<Rightarrow> P_NAME p
              | None \<Rightarrow> label_project @ toString (groupId (hd (groupTasks (fst e) tasks))))
         \<and> (\<forall>r \<in> set (groupRows (snd e)).
               projectName r = ud_projectName (snd e) \<and> userName r = ud_userName (snd e))"
  proof
    fix e assume e: "e \<in> set ?gs"
    from planFactGroups_group[OF e] have gi: "groupInv tasks (fst e) (snd e)" .
    then have ids: "fst ` set (ud_tasks (snd e)) = t_id ` {t \<in> set tasks. included t \<and> groupKey t = fst e}"
      and d: "distinct (map fst (ud_tasks (snd e)))"
      unfolding groupInv_def by blast+
    have "length (detailRows (snd e)) = length (map fst (ud_tasks (snd e)))"
      by (simp add: detailRows_def)
    also have "\<dots> = card (set (map fst (ud_tasks (snd e))))"
      using distinct_card[OF d] by simp
    also have "\<dots> = card (t_id ` {t \<in> set tasks. included t \<and> groupKey t = fst e})"
      using ids by simp
    finally have len: "length (detailRows (snd e))
           = card (t_id ` {t \<in> set tasks. included t \<and> groupKey t = fst e})" .
    have gt: "groupTasks (fst e) tasks = filter (\<lambda>t. included t \<and> groupKey t = fst e) tasks"
      by (simp add: groupTasks_def)
    note nm = planFactGroups_group_names[OF e]
    have fb: "(\<forall>u \<in> set users. parseInt (ID u) \<noteq> parseInt (responsibleId (hd (groupTasks (fst e) tasks))))
              \<longrightarrow> ud_userName (snd e) = label_unassigned"
    proof
      assume "\<forall>u \<in> set users. parseInt (ID u) \<noteq> parseInt (responsibleId (hd (groupTasks (fst e) tasks)))"
      then have "buildUserMap users (parseInt (responsibleId (hd (groupTasks (fst e) tasks)))) = None"
        by (simp add: buildUserMap_None)
      then show "ud_userName (snd e) = label_unassigned"
        unfolding nm(2) by (simp add: displayName_def)
    qed
    have rows: "\<forall>r \<in> set (groupRows (snd e)).
               projectName r = ud_projectName (snd e) \<and> userName r = ud_userName (snd e)"
      using groupRows_names by blast
    from ids len gt nm fb rows
    show "fst ` set (ud_tasks (snd e)) = t_id ` {t \<in> set tasks. included t \<and> groupKey t = fst e}
         \<and> length (detailRows (snd e))
           = card (t_id ` {t \<in> set tasks. included t \<and> groupKey t = fst e})
         \<and> groupTasks (fst e) tasks = filter (\<lambda>t. included t \<and> groupKey t = fst e) tasks
         \<and> groupTasks (fst e) tasks \<noteq> []
         \<and> ud_userName (snd e)
           = displayName (buildUserMap users (parseInt (responsibleId (hd (groupTasks (fst e) tasks)))))
         \<and> ((\<forall>u \<in> set users. parseInt (ID u) \<noteq> parseInt (responsibleId (hd (groupTasks (fst e) tasks))))
              \<longrightarrow> ud_userName (snd e) = label_unassigned)
         \<and> ud_projectName (snd e)
           = (case projectMap (parseInt (groupId (hd (groupTasks (fst e) tasks)))) of
                Some p \<Rightarrow> P_NAME p
              | None \<Rightarrow> label_project @ toString (groupId (hd (groupTasks (fst e) tasks))))
         \<and> (\<forall>r \<in> set (groupRows (snd e)).
               projectName r = ud_projectName (snd e) \<and> userName r = ud_userName (snd e))"
      by (intro conjI)
  qed
  from f p ks g show ?thesis unfolding inc conj_assoc by (intro conjI)
qed

theorem planfact_discard_rule_witness:
  "planFactGroups (ledgerTasks @ [taskNoUser, taskElsewhere]) sampleUsers sampleProjectMap
     = planFactGroups (ledgerTasks @ [taskElsewhere]) sampleUsers sampleProjectMap
   \<and> map fst (planFactGroups (ledgerTasks @ [taskNoUser, taskElsewhere]) sampleUsers sampleProjectMap)
     = [''10-5'', ''10-6'', ''11-5'']
   \<and> hd (groupTasks ''10-6'' (ledgerTasks @ [taskNoUser, taskElsewhere])) = ledgerTasks ! 1
   \<and> parseInt (ID (hd sampleUsers)) \<noteq> parseInt (responsibleId (ledgerTasks ! 1))
   \<and> ud_userName (snd (planFactGroups (ledgerTasks @ [taskNoUser, taskElsewhere]) sampleUsers sampleProjectMap ! 1))
     = label_unassigned
   \<and> ud_projectName (snd (planFactGroups (ledgerTasks @ [taskNoUser, taskElsewhere]) sampleUsers sampleProjectMap ! 1))
     = ''Proj''
   \<and> ud_userName (snd (planFactGroups (ledgerTasks @ [taskNoUser, taskElsewhere]) sampleUsers sampleProjectMap ! 2))
     = ''Ann K''
   \<and> ud_projectName (snd (planFactGroups (ledgerTasks @ [taskNoUser, taskElsewhere]) sampleUsers sampleProjectMap ! 2))
     = label_project @ ''11''
   \<and> length (detailRows (snd (planFactGroups (ledgerTasks @ [taskNoUser, taskElsewhere]) sampleUsers sampleProjectMap ! 0))) = 1
   \<and> card (t_id ` {t \<in> set (ledgerTasks @ [taskNoUser, taskElsewhere]).
          truthy (groupId t) \<and> truthy (responsibleId t) \<and> groupKey t = ''10-5''}) = 1"
proof -
  let ?ts = "ledgerTasks @ [taskNoUser, taskElsewhere]"
  let ?gs = "planFactGroups ?ts sampleUsers sampleProjectMap"
  note T = planfact_discard_rule[of ?ts sampleUsers sampleProjectMap byteCompare]
  have fl: "filter (\<lambda>t. truthy (groupId t) \<and> truthy (responsibleId t)) ?ts = ledgerTasks @ [taskElsewhere]"
    by (simp add: ledgerTasks_def taskNoUser_def taskElsewhere_def sampleTask_def)
  from T have e: "?gs = planFactGroups (ledgerTasks @ [taskElsewhere]) sampleUsers sampleProjectMap"
    unfolding fl by blast
  have ks: "map fst ?gs = [''10-5'', ''10-6'', ''11-5'']"
    unfolding mixed_groups by simp
  have m0: "?gs ! 0 \<in> set ?gs" and m1: "?gs ! 1 \<in> set ?gs" and m2: "?gs ! 2 \<in> set ?gs"
    unfolding mixed_groups by simp_all
  have k0: "fst (?gs ! 0) = ''10-5''" and k1: "fst (?gs ! 1) = ''10-6''" and k2: "fst (?gs ! 2) = ''11-5''"
    unfolding mixed_groups by simp_all
  have h1: "hd (groupTasks ''10-6'' ?ts) = ledgerTasks ! 1"
    and h2: "hd (groupTasks ''11-5'' ?ts) = taskElsewhere"
    by (simp_all add: groupTasks_def included_def groupKey_def ledgerTasks_def sampleTask_def
          taskNoUser_def taskElsewhere_def js_eval)
  have nu: "parseInt (ID (hd sampleUsers)) \<noteq> parseInt (responsibleId (ledgerTasks ! 1))"
    by (simp add: sampleUsers_def ledgerTasks_def sampleTask_def js_eval)
  then have all: "\<forall>u \<in> set sampleUsers. parseInt (ID u) \<noteq> parseInt (responsibleId (hd (groupTasks (fst (?gs ! 1)) ?ts)))"
    unfolding k1 h1 by (simp add: sampleUsers_def)
  from T m1 all have u1: "ud_userName (snd (?gs ! 1)) = label_unassigned"
    by blast
  from T m1 have "ud_projectName (snd (?gs ! 1))
      = (case sampleProjectMap (parseInt (groupId (hd (groupTasks (fst (?gs ! 1)) ?ts)))) of
           Some p \<Rightarrow> P_NAME p
         | None \<Rightarrow> label_project @ toString (groupId (hd (groupTasks (fst (?gs ! 1)) ?ts))))"
    by blast
  then have p1: "ud_projectName (snd (?gs ! 1)) = ''Proj''"
    unfolding k1 h1
    by (simp add: sampleProjectMap_def sampleProject_def ledgerTasks_def sampleTask_def)
  from T m2 have "ud_userName (snd (?gs ! 2))
      = displayName (buildUserMap sampleUsers (parseInt (responsibleId (hd (groupTasks (fst (?gs ! 2)) ?ts)))))"
    by blast
  then have u2: "ud_userName (snd (?gs ! 2)) = ''Ann K''"
    unfolding k2 h2
    by (simp add: buildUserMap_def displayName_def sampleUsers_def taskElsewhere_def sampleTask_def js_eval)
  from T m2 have "ud_projectName (snd (?gs ! 2))
      = (case sampleProjectMap (parseInt (groupId (hd (groupTasks (fst (?gs ! 2)) ?ts)))) of
           Some p \<Rightarrow> P_NAME p
         | None \<Rightarrow> label_project @ toString (groupId (hd (groupTasks (fst (?gs ! 2)) ?ts))))"
    by blast
  then have p2: "ud_projectName (snd (?gs ! 2)) = label_project @ ''11''"
    unfolding k2 h2
    by (simp add: sampleProjectMap_def taskElsewhere_def sampleTask_def js_eval)
  have len: "length (detailRows (snd (?gs ! 0))) = 1"
    unfolding mixed_groups by (simp add: detailRows_def)
  from T m0 have "length (detailRows (snd (?gs ! 0)))
      = card (t_id ` {t \<in> set ?ts. truthy (groupId t) \<and> truthy (responsibleId t) \<and> groupKey t = fst (?gs ! 0)})"
    by blast
  with len k0 have c: "card (t_id ` {t \<in> set ?ts.
          truthy (groupId t) \<and> truthy (responsibleId t) \<and> groupKey t = ''10-5''}) = 1"
    by simp
  from e ks h1 nu u1 p1 u2 p2 len c show ?thesis by (intro conjI)
qed

lemma ledger_rows_any_collation:
  "map (\<lambda>r. (projectName r, userName r, isSummary r)) (processPlanFactData lc ledgerTasks [] Map.empty)
     = [(label_project @ ''10'', label_unassigned, False),
        (label_project @ ''10'', label_unassigned, False),
        (label_project @ ''10'', label_unassigned, True),
        (label_project @ ''10'', label_unassigned, True)]"
  unfolding processPlanFactData_def ledger_groups
  by (simp add: groupRows_def detailRows_def detailRow_def summaryRow_def planFactCompare_def js_sort_def)

text \<open>
  C6.  The final sort compares the displayed names, while the groups are keyed by ids.
  With no user known, the groups of users 5 and 6 of project 10 have the same project
  name and the same user name: whatever the collation, the two detail rows come first and
  the two summary rows last, so the summary row of the first group does not follow the
  detail row of that group.
\<close>

theorem planfact_summary_not_after_own_details:
  "map (\<lambda>r. (projectName r, userName r, isSummary r)) (processPlanFactData lc ledgerTasks [] Map.empty)
     = [(label_project @ ''10'', label_unassigned, False),
        (label_project @ ''10'', label_unassigned, False),
        (label_project @ ''10'', label_unassigned, True),
        (label_project @ ''10'', label_unassigned, True)]
   \<and> map taskTitle (processPlanFactData byteCompare ledgerTasks [] Map.empty)
     = [''A'', ''B'', label_summary, label_summary]
   \<and> \<not> summaryFollowsOwnDetails byteCompare
          (processPlanFactData byteCompare ledgerTasks [] Map.empty)
          (snd (hd (planFactGroups ledgerTasks [] Map.empty)))"
proof -
  have "map taskTitle (processPlanFactData byteCompare ledgerTasks [] Map.empty)
     = [''A'', ''B'', label_summary, label_summary]"
    unfolding ledger_report unfolding ledger_groups
    by (simp add: detailRow_def summaryRow_def)
  moreover have "\<not> summaryFollowsOwnDetails byteCompare
          (processPlanFactData byteCompare ledgerTasks [] Map.empty)
          (snd (hd (planFactGroups ledgerTasks [] Map.empty)))"
    unfolding ledger_report unfolding ledger_groups
    by (simp add: summaryFollowsOwnDetails_def detailRows_def detailRow_def summaryRow_def js_sort_def)
  ultimately show ?thesis using ledger_rows_any_collation[of lc] by (intro conjI)
qed

theorem planfact_summary_not_after_own_details_witness:
  "map isSummary (processPlanFactData byteCompare ledgerTasks [] Map.empty) = [False, False, True, True]
   \<and> summaryFollowsOwnDetails byteCompare
          (processPlanFactData byteCompare ledgerTasks [] Map.empty)
          (snd (hd (planFactGroups ledgerTasks [] Map.empty))) = False"
proof -
  note T = planfact_summary_not_after_own_details[of byteCompare]
  from T have "map (\<lambda>r. (projectName r, userName r, isSummary r))
      (processPlanFactData byteCompare ledgerTasks [] Map.empty)
     = [(label_project @ ''10'', label_unassigned, False),
        (label_project @ ''10'', label_unassigned, False),
        (label_project @ ''10'', label_unassigned, True),
        (label_project @ ''10'', label_unassigned, True)]"
    by blast
  then have "map (\<lambda>t. snd (snd t)) (map (\<lambda>r. (projectName r, userName r, isSummary r))
      (processPlanFactData byteCompare ledgerTasks [] Map.empty)) = [False, False, True, True]"
    by (simp only: list.map snd_conv)
  then have "map isSummary (processPlanFactData byteCompare ledgerTasks [] Map.empty)
      = [False, False, True, True]"
    by (simp add: comp_def)
  with T show ?thesis by blast
qed

text \<open>
  The rows of one group form one block of the sorted report when the names of the group
  are those of no other group.
\<close>

lemma sorted_filter_contiguous:
  assumes conv: "\<And>a b c. R a b \<Longrightarrow> R b c \<Longrightarrow> P a \<Longrightarrow> P c \<Longrightarrow> P b"
  shows "sorted_wrt R xs \<Longrightarrow>
    \<exists>pre post. xs = pre @ filter P xs @ post \<and> (\<forall>x \<in> set pre. \<not> P x) \<and> (\<forall>x \<in> set post. \<not> P x)"
proof (induction xs)
  case Nil
  show ?case by simp
next
  case (Cons x xs)
  then have srt: "sorted_wrt R xs" and hd: "\<And>y. y \<in> set xs \<Longrightarrow> R x y" by auto
  from Cons.IH[OF srt] obtain pre post where
    split: "xs = pre @ filter P xs @ post" and np: "\<forall>x \<in> set pre. \<not> P x" "\<forall>x \<in> set post. \<not> P x"
    by blast
  show ?case
  proof (cases "P x")
    case False
    have "x # xs = (x # pre) @ filter P (x # xs) @ post" using split False by simp
    moreover have "\<forall>y \<in> set (x # pre). \<not> P y" using np False by simp
    ultimately show ?thesis using np(2) by blast
  next
    case True
    show ?thesis
    proof (cases "filter P xs = []")
      case True
      then have "\<forall>y \<in> set xs. \<not> P y" by (simp add: filter_empty_conv)
      moreover have "x # xs = [] @ filter P (x # xs) @ xs" using True \<open>P x\<close> by simp
      ultimately show ?thesis by (metis empty_iff list.set(1))
    next
      case False
      then obtain m where m: "m \<in> set (filter P xs)" by (cases "filter P xs") auto
      then have pm: "P m" by simp
      have "pre = []"
      proof (rule ccontr)
        assume "pre \<noteq> []"
        then obtain y where y: "y \<in> set pre" by (cases pre) auto
        have "sorted_wrt R (pre @ filter P xs @ post)" using srt split by simp
        with y m have "R y m" by (auto simp: sorted_wrt_append)
        moreover have "R x y" using hd y split by (metis Un_iff set_append)
        ultimately have "P y" using conv \<open>P x\<close> pm by blast
        with np(1) y show False by blast
      qed
      then have "x # xs = [] @ filter P (x # xs) @ post" using split \<open>P x\<close> by simp
      with np(2) show ?thesis by (metis empty_iff list.set(1))
    qed
  qed
qed

lemma concat_single:
  "distinct xs \<Longrightarrow> x \<in> set xs \<Longrightarrow> concat (map (\<lambda>y. if y = x then f x else []) xs) = f x"
proof (induction xs)
  case Nil
  then show ?case by simp
next
  case (Cons a xs)
  show ?case
  proof (cases "a = x")
    case True
    with Cons.prems have "x \<notin> set xs" by simp
    then have "concat (map (\<lambda>y. if y = x then f x else []) xs) = []"
      by (induction xs) auto
    with True show ?thesis by simp
  next
    case False
    with Cons show ?thesis by simp
  qed
qed

lemma filter_group_rows:
  assumes d: "distinct (map fst gs)" and e: "e \<in> set gs"
    and uniq: "\<forall>e' \<in> set gs. ud_projectName (snd e') = ud_projectName (snd e)
                 \<and> ud_userName (snd e') = ud_userName (snd e) \<longrightarrow> e' = e"
  shows "filter (\<lambda>r. projectName r = ud_projectName (snd e) \<and> userName r = ud_userName (snd e))
           (concat (map (\<lambda>e. groupRows (snd e)) gs)) = groupRows (snd e)"
proof -
  define P :: "reportRow \<Rightarrow> bool" where "P = (\<lambda>r. projectName r = ud_projectName (snd e) \<and> userName r = ud_userName (snd e))"
  have each: "\<And>e'. e' \<in> set gs \<Longrightarrow>
      filter P (groupRows (snd e')) = (if e' = e then groupRows (snd e) else [])"
  proof -
    fix e' assume m: "e' \<in> set gs"
    show "filter P (groupRows (snd e')) = (if e' = e then groupRows (snd e) else [])"
    proof (cases "e' = e")
      case True
      have "\<forall>r \<in> set (groupRows (snd e)). P r"
        unfolding P_def using groupRows_names by blast
      then have "filter P (groupRows (snd e)) = groupRows (snd e)" by (rule filter_True)
      with True show ?thesis by simp
    next
      case False
      with uniq m have ne: "\<not> (ud_projectName (snd e') = ud_projectName (snd e)
                 \<and> ud_userName (snd e') = ud_userName (snd e))" by blast
      have "\<forall>r \<in> set (groupRows (snd e')). \<not> P r"
      proof
        fix r assume "r \<in> set (groupRows (snd e'))"
        from groupRows_names[OF this] ne show "\<not> P r" unfolding P_def by simp
      qed
      then have "filter P (groupRows (snd e')) = []" by (simp add: filter_empty_conv)
      with False show ?thesis by simp
    qed
  qed
  have dg: "distinct gs" using d by (simp add: distinct_map)
  have "filter P (concat (map (\<lambda>e. groupRows (snd e)) gs))
      = concat (map (\<lambda>e'. filter P (groupRows (snd e'))) gs)"
    by (simp add: filter_concat comp_def)
  also have "map (\<lambda>e'. filter P (groupRows (snd e'))) gs
       = map (\<lambda>e'. if e' = e then groupRows (snd e) else []) gs"
    by (rule map_cong[OF refl each])
  also have "concat (map (\<lambda>e'. if e' = e then groupRows (snd e) else []) gs) = groupRows (snd e)"
    by (rule concat_single[OF dg e])
  finally show ?thesis unfolding P_def .
qed

lemma planFactOrder_convex:
  assumes c: "collationPreorder lc"
    and ab: "planFactOrder lc a b" and bc: "planFactOrder lc b c"
    and pa: "projectName a = p \<and> userName a = u" and pc: "projectName c = p \<and> userName c = u"
  shows "projectName b = p \<and> userName b = u"
proof -
  have asym: "\<And>x y. lc x y < 0 \<Longrightarrow> \<not> lc y x < 0"
    using c unfolding collationPreorder_def by (metis less_asym)
  have irr: "\<And>x. \<not> lc x x < 0"
    using collation_refl[OF c] by simp
  from ab pa have 1: "lc p (projectName b) < 0 \<or> projectName b = p"
    unfolding planFactOrder_def by metis
  from bc pc have 2: "lc (projectName b) p < 0 \<or> projectName b = p"
    unfolding planFactOrder_def by metis
  from 1 2 asym have pb: "projectName b = p" by blast
  from ab pa pb irr have 3: "lc u (userName b) < 0 \<or> userName b = u"
    unfolding planFactOrder_def by metis
  from bc pc pb irr have 4: "lc (userName b) u < 0 \<or> userName b = u"
    unfolding planFactOrder_def by metis
  from 3 4 asym have "userName b = u" by blast
  with pb show ?thesis by simp
qed

lemma namesApart_pair:
  assumes "namesApart lc rows" "a \<in> set rows" "b \<in> set rows"
  shows "lc (projectName a) (projectName b) = 0 \<longrightarrow> projectName a = projectName b"
    and "lc (userName a) (userName b) = 0 \<longrightarrow> userName a = userName b"
  using assms unfolding namesApart_def by blast+

lemma sorted_planFact:
  assumes c: "collationPreorder lc"
    and ap: "namesApart lc (processPlanFactData lc tasks users projectMap)"
  shows "sorted_wrt (planFactOrder lc) (processPlanFactData lc tasks users projectMap)"
proof -
  let ?out = "processPlanFactData lc tasks users projectMap"
  let ?rows = "concat (map (\<lambda>e. groupRows (snd e)) (planFactGroups tasks users projectMap))"
  have so: "set ?out = set ?rows"
    unfolding processPlanFactData_def using mset_js_sort[of "planFactCompare lc" ?rows]
    by (metis set_mset_mset)
  have eq: "\<And>a b. a \<in> set ?rows \<Longrightarrow> b \<in> set ?rows \<Longrightarrow>
      (planFactCompare lc a b \<le> 0) = planFactOrder lc a b"
    using namesApart_pair[OF ap] planFactCompare_order[OF c] unfolding so by blast
  have tot: "\<And>a b. a \<in> set ?rows \<Longrightarrow> b \<in> set ?rows \<Longrightarrow> \<not> planFactCompare lc a b \<le> 0
      \<Longrightarrow> planFactCompare lc b a \<le> 0"
  proof -
    fix a b assume m: "a \<in> set ?rows" "b \<in> set ?rows" and n: "\<not> planFactCompare lc a b \<le> 0"
    from n eq[OF m] have "\<not> planFactOrder lc a b" by simp
    from planFactOrder_total[OF c this] namesApart_pair[OF ap, of a b] m
    have "planFactOrder lc b a" unfolding so by blast
    with eq[OF m(2,1)] show "planFactCompare lc b a \<le> 0" by simp
  qed
  have trans: "\<And>a b c. a \<in> set ?rows \<Longrightarrow> b \<in> set ?rows \<Longrightarrow> c \<in> set ?rows \<Longrightarrow>
      planFactCompare lc a b \<le> 0 \<Longrightarrow> planFactCompare lc b c \<le> 0 \<Longrightarrow> planFactCompare lc a c \<le> 0"
  proof -
    fix a b d assume m: "a \<in> set ?rows" "b \<in> set ?rows" "d \<in> set ?rows"
      and h: "planFactCompare lc a b \<le> 0" "planFactCompare lc b d \<le> 0"
    from h eq[OF m(1,2)] eq[OF m(2,3)] have "planFactOrder lc a b" "planFactOrder lc b d" by simp_all
    from planFactOrder_trans[OF c this] namesApart_pair[OF ap, of a d] m
    have "planFactOrder lc a d" unfolding so by blast
    with eq[OF m(1,3)] show "planFactCompare lc a d \<le> 0" by simp
  qed
  have "sorted_wrt (\<lambda>a b. planFactCompare lc a b \<le> 0) (js_sort (planFactCompare lc) ?rows)"
    by (rule sorted_js_sort[of "set ?rows", OF tot trans]) simp_all
  then have "sorted_wrt (\<lambda>a b. planFactCompare lc a b \<le> 0) ?out"
    by (simp add: processPlanFactData_def)
  then show ?thesis
    using eq unfolding so[symmetric] by (rule_tac sorted_wrt_mono_rel) auto
qed

lemma group_block_contiguous:
  assumes c: "collationPreorder lc"
    and ap: "namesApart lc (processPlanFactData lc tasks users projectMap)"
    and e: "e \<in> set (planFactGroups tasks users projectMap)"
    and uniq: "\<forall>e' \<in> set (planFactGroups tasks users projectMap).
                 ud_projectName (snd e') = ud_projectName (snd e)
                 \<and> ud_userName (snd e') = ud_userName (snd e) \<longrightarrow> e' = e"
  shows "\<exists>pre ds post. processPlanFactData lc tasks users projectMap
            = pre @ ds @ [summaryRow (snd e)] @ post
          \<and> mset ds = mset (detailRows (snd e)) \<and> ds \<noteq> []"
proof -
  let ?gs = "planFactGroups tasks users projectMap"
  let ?out = "processPlanFactData lc tasks users projectMap"
  let ?S = "summaryRow (snd e)"
  define P :: "reportRow \<Rightarrow> bool" where
    "P = (\<lambda>r. projectName r = ud_projectName (snd e) \<and> userName r = ud_userName (snd e))"
  have d: "distinct (map fst ?gs)"
    using planFactGroups_invariant[of "buildUserMap users" projectMap tasks]
    unfolding planFactGroups_def by auto
  have srt: "sorted_wrt (planFactOrder lc) ?out" by (rule sorted_planFact[OF c ap])
  have conv: "\<And>a b c. planFactOrder lc a b \<Longrightarrow> planFactOrder lc b c \<Longrightarrow> P a \<Longrightarrow> P c \<Longrightarrow> P b"
    unfolding P_def using planFactOrder_convex[OF c] by blast
  have "\<exists>pre post. ?out = pre @ filter P ?out @ post
          \<and> (\<forall>x \<in> set pre. \<not> P x) \<and> (\<forall>x \<in> set post. \<not> P x)"
  proof (rule sorted_filter_contiguous[where R = "planFactOrder lc" and P = P, OF _ srt])
    fix a b c assume "planFactOrder lc a b" "planFactOrder lc b c" "P a" "P c"
    then show "P b" by (rule conv)
  qed
  then obtain pre post where split: "?out = pre @ filter P ?out @ post" by blast
  have "mset (filter P ?out) = mset (filter P (concat (map (\<lambda>e. groupRows (snd e)) ?gs)))"
    by (simp add: processPlanFactData_def mset_js_sort)
  also have "filter P (concat (map (\<lambda>e. groupRows (snd e)) ?gs)) = groupRows (snd e)"
    unfolding P_def by (rule filter_group_rows[OF d e uniq])
  finally have ms: "mset (filter P ?out) = mset (detailRows (snd e)) + {#?S#}"
    by (simp add: groupRows_def)
  have det: "\<And>r. r \<in> set (detailRows (snd e)) \<Longrightarrow> \<not> isSummary r \<and> P r"
    unfolding P_def by (auto simp: detailRows_def detailRow_def)
  have sS: "isSummary ?S" "P ?S" unfolding P_def by (simp_all add: summaryRow_def)
  have notin: "?S \<notin> set (detailRows (snd e))" using det sS by blast
  have "?S \<in># mset (filter P ?out)" using ms by simp
  then have "?S \<in> set (filter P ?out)" by (simp only: set_mset_mset)
  then obtain a b where ab: "filter P ?out = a @ ?S # b" by (meson split_list)
  have sm: "sorted_wrt (planFactOrder lc) (filter P ?out)"
    using srt by (rule sorted_wrt_filter)
  have irr: "\<And>x. \<not> lc x x < 0"
    using collation_refl[OF c] by simp
  have "b = []"
  proof (rule ccontr)
    assume "b \<noteq> []"
    then obtain y where y: "y \<in> set b" by (cases b) auto
    from sm ab y have o: "planFactOrder lc ?S y" by (auto simp: sorted_wrt_append)
    from y ab have "y \<in># mset (filter P ?out)" by simp
    with ms have "y \<in> set (detailRows (snd e)) \<or> y = ?S" by auto
    then show False
    proof
      assume "y \<in> set (detailRows (snd e))"
      from det[OF this] have "\<not> isSummary y" "P y" by simp_all
      with o sS irr show False unfolding planFactOrder_def P_def by metis
    next
      assume "y = ?S"
      with y have cb: "0 < count (mset b) ?S"
        by (simp add: count_greater_zero_iff)
      have "count (mset (filter P ?out)) ?S = count (mset a) ?S + 1 + count (mset b) ?S"
        unfolding ab by simp
      with cb have "count (mset (filter P ?out)) ?S \<ge> 2"
        by linarith
      moreover have "count (mset (detailRows (snd e)) + {#?S#}) ?S = 1"
        using notin by (simp add: count_eq_zero_iff)
      ultimately show False unfolding ms by linarith
    qed
  qed
  with ab have f: "filter P ?out = a @ [?S]" by simp
  with ms have ma: "mset a = mset (detailRows (snd e))" by simp
  from planFactGroups_group[OF e] have "detailRows (snd e) \<noteq> []"
    by (simp add: groupInv_def detailRows_def)
  with ma have ne: "a \<noteq> []" by auto
  from split f have "?out = pre @ a @ [?S] @ post" by simp
  with ma ne show ?thesis by blast
qed

lemma ledger_groups_named:
  "planFactGroups ledgerTasks sampleUsers Map.empty =
    [(''10-5'', \<lparr>ud_projectName = label_project @ ''10'', ud_userName = ''Ann K'',
        ud_tasks = [(IntV 1, \<lparr>td_title = ''A'', td_actualHours = Num 3, td_plannedHours = Num 1\<rparr>)],
        totalActual = Num 3, totalPlanned = Num 1\<rparr>),
     (''10-6'', \<lparr>ud_projectName = label_project @ ''10'', ud_userName = label_unassigned,
        ud_tasks = [(IntV 2, \<lparr>td_title = ''B'', td_actualHours = Num (1 / 2), td_plannedHours = Num 1\<rparr>)],
        totalActual = Num (1 / 2), totalPlanned = Num 1\<rparr>)]"
  by (simp add: pf_eval js_eval round64_values ledgerTasks_def sampleTask_def sampleUsers_def)

text \<open>
  Where the summary row does follow.  For a collation that is antisymmetric and
  transitive, and a report in which no two different project names and no two different
  user names compare equal, the rows of \<^verbatim>\<open>processPlanFactData\<close> are sorted by project
  name, then user name, then detail rows before summary rows, then task title; a summary
  row is never followed by a detail row with the same project name and user name; and
  the summary row of a group comes immediately after the detail rows of that group
  whenever no other group has the same project name and user name.
\<close>

theorem planfact_rows_sorted:
  assumes c: "collationPreorder lc"
    and ap: "namesApart lc (processPlanFactData lc tasks users projectMap)"
  shows "sorted_wrt (planFactOrder lc) (processPlanFactData lc tasks users projectMap)
   \<and> (\<forall>i j. i < j \<and> j < length (processPlanFactData lc tasks users projectMap)
          \<and> projectName (processPlanFactData lc tasks users projectMap ! i)
              = projectName (processPlanFactData lc tasks users projectMap ! j)
          \<and> userName (processPlanFactData lc tasks users projectMap ! i)
              = userName (processPlanFactData lc tasks users projectMap ! j)
          \<and> isSummary (processPlanFactData lc tasks users projectMap ! i)
        \<longrightarrow> isSummary (processPlanFactData lc tasks users projectMap ! j))
   \<and> (\<forall>e \<in> set (planFactGroups tasks users projectMap).
        (\<forall>e' \<in> set (planFactGroups tasks users projectMap).
            ud_projectName (snd e') = ud_projectName (snd e)
            \<and> ud_userName (snd e') = ud_userName (snd e) \<longrightarrow> e' = e)
        \<longrightarrow> (\<exists>pre ds post. processPlanFactData lc tasks users projectMap
                  = pre @ ds @ [summaryRow (snd e)] @ post
                \<and> mset ds = mset (detailRows (snd e)) \<and> ds \<noteq> []))"
proof -
  let ?out = "processPlanFactData lc tasks users projectMap"
  have s: "sorted_wrt (planFactOrder lc) ?out"
    by (rule sorted_planFact[OF c ap])
  have irr: "\<And>x. \<not> lc x x < 0"
    using collation_refl[OF c] by simp
  have "\<forall>i j. i < j \<and> j < length ?out
          \<and> projectName (?out ! i) = projectName (?out ! j)
          \<and> userName (?out ! i) = userName (?out ! j)
          \<and> isSummary (?out ! i)
        \<longrightarrow> isSummary (?out ! j)"
  proof (intro allI impI)
    fix i j
    assume h: "i < j \<and> j < length ?out
          \<and> projectName (?out ! i) = projectName (?out ! j)
          \<and> userName (?out ! i) = userName (?out ! j)
          \<and> isSummary (?out ! i)"
    with s have "planFactOrder lc (?out ! i) (?out ! j)"
      by (simp add: sorted_wrt_iff_nth_less)
    with h irr show "isSummary (?out ! j)"
      unfolding planFactOrder_def by metis
  qed
  moreover have "\<forall>e \<in> set (planFactGroups tasks users projectMap).
        (\<forall>e' \<in> set (planFactGroups tasks users projectMap).
            ud_projectName (snd e') = ud_projectName (snd e)
            \<and> ud_userName (snd e') = ud_userName (snd e) \<longrightarrow> e' = e)
        \<longrightarrow> (\<exists>pre ds post. ?out = pre @ ds @ [summaryRow (snd e)] @ post
                \<and> mset ds = mset (detailRows (snd e)) \<and> ds \<noteq> [])"
    using group_block_contiguous[OF c ap] by blast
  ultimately show ?thesis using s by blast
qed

theorem planfact_rows_sorted_witness:
  "collationPreorder byteCompare
   \<and> namesApart byteCompare (processPlanFactData byteCompare ledgerTasks sampleUsers Map.empty)
   \<and> sorted_wrt (planFactOrder byteCompare) (processPlanFactData byteCompare ledgerTasks [] Map.empty)
   \<and> map isSummary (processPlanFactData byteCompare ledgerTasks [] Map.empty) = [False, False, True, True]
   \<and> hd (planFactGroups ledgerTasks sampleUsers Map.empty)
        \<in> set (planFactGroups ledgerTasks sampleUsers Map.empty)
   \<and> (\<exists>pre ds post. processPlanFactData byteCompare ledgerTasks sampleUsers Map.empty
          = pre @ ds @ [summaryRow (snd (hd (planFactGroups ledgerTasks sampleUsers Map.empty)))] @ post
        \<and> mset ds = mset (detailRows (snd (hd (planFactGroups ledgerTasks sampleUsers Map.empty))))
        \<and> ds \<noteq> [])"
proof -
  note T = planfact_rows_sorted[OF collationPreorder_byteCompare namesApart_byteCompare, of ledgerTasks "[]" Map.empty]
  note U = planfact_rows_sorted[OF collationPreorder_byteCompare namesApart_byteCompare, of ledgerTasks sampleUsers Map.empty]
  have m: "map isSummary (processPlanFactData byteCompare ledgerTasks [] Map.empty) = [False, False, True, True]"
    unfolding ledger_report by (simp add: detailRow_def summaryRow_def)
  have mem: "hd (planFactGroups ledgerTasks sampleUsers Map.empty)
        \<in> set (planFactGroups ledgerTasks sampleUsers Map.empty)"
    unfolding ledger_groups_named by simp
  have uniq: "\<forall>e' \<in> set (planFactGroups ledgerTasks sampleUsers Map.empty).
            ud_projectName (snd e') = ud_projectName (snd (hd (planFactGroups ledgerTasks sampleUsers Map.empty)))
            \<and> ud_userName (snd e') = ud_userName (snd (hd (planFactGroups ledgerTasks sampleUsers Map.empty)))
            \<longrightarrow> e' = hd (planFactGroups ledgerTasks sampleUsers Map.empty)"
    unfolding ledger_groups_named by (simp add: label_unassigned_def)
  from U mem uniq have "\<exists>pre ds post. processPlanFactData byteCompare ledgerTasks sampleUsers Map.empty
          = pre @ ds @ [summaryRow (snd (hd (planFactGroups ledgerTasks sampleUsers Map.empty)))] @ post
        \<and> mset ds = mset (detailRows (snd (hd (planFactGroups ledgerTasks sampleUsers Map.empty))))
        \<and> ds \<noteq> []"
    by blast
  with T m mem collationPreorder_byteCompare namesApart_byteCompare show ?thesis by blast
qed

lemma collationPreorder_canonCompare: "collationPreorder canonCompare"
  unfolding collationPreorder_def canonCompare_def
  using byteCompare_flip byteCompare_trans by blast

lemma tie_groups:
  "planFactGroups tieTasks tieUsers tieProjects =
    [(''10-5'', \<lparr>ud_projectName = [CHR 0xC3, CHR 0xA9], ud_userName = ''Zed'',
        ud_tasks = [(IntV 1, \<lparr>td_title = ''A'', td_actualHours = Num 1, td_plannedHours = Num 1\<rparr>)],
        totalActual = Num 1, totalPlanned = Num 1\<rparr>),
     (''11-6'', \<lparr>ud_projectName = [CHR 0x65, CHR 0xCC, CHR 0x81], ud_userName = ''Abe'',
        ud_tasks = [(IntV 2, \<lparr>td_title = ''B'', td_actualHours = Num 1, td_plannedHours = Num 1\<rparr>)],
        totalActual = Num 1, totalPlanned = Num 1\<rparr>)]"
  by code_simp

lemma canonCompare_tie: "canonCompare [CHR 0xC3, CHR 0xA9] [CHR 0x65, CHR 0xCC, CHR 0x81] = 0"
  "canonCompare [CHR 0x65, CHR 0xCC, CHR 0x81] [CHR 0xC3, CHR 0xA9] = 0"
  "canonCompare [CHR 0xC3, CHR 0xA9] [CHR 0xC3, CHR 0xA9] = 0"
  "canonCompare [CHR 0x65, CHR 0xCC, CHR 0x81] [CHR 0x65, CHR 0xCC, CHR 0x81] = 0"
  by (simp_all add: canonCompare_def)

lemma tie_report:
  "processPlanFactData canonCompare tieTasks tieUsers tieProjects =
     concat (map (\<lambda>e. groupRows (snd e)) (planFactGroups tieTasks tieUsers tieProjects))"
  unfolding processPlanFactData_def tie_groups
  by (simp add: groupRows_def detailRows_def detailRow_def summaryRow_def planFactCompare_def
        js_sort_def canonCompare_tie)

text \<open>
  Where two different project names compare equal, the comparison function returns 0 for
  two rows of the two projects whatever their users, and the rows of Zed stay before those
  of Abe.
\<close>

lemma planfact_unsorted_when_names_tie:
  "collationPreorder canonCompare
   \<and> map projectName (processPlanFactData canonCompare tieTasks tieUsers tieProjects)
       = [[CHR 0xC3, CHR 0xA9], [CHR 0xC3, CHR 0xA9],
          [CHR 0x65, CHR 0xCC, CHR 0x81], [CHR 0x65, CHR 0xCC, CHR 0x81]]
   \<and> canonCompare [CHR 0xC3, CHR 0xA9] [CHR 0x65, CHR 0xCC, CHR 0x81] = 0
   \<and> map userName (processPlanFactData canonCompare tieTasks tieUsers tieProjects)
       = [''Zed'', ''Zed'', ''Abe'', ''Abe'']
   \<and> canonCompare ''Abe'' ''Zed'' < 0
   \<and> \<not> namesApart canonCompare (processPlanFactData canonCompare tieTasks tieUsers tieProjects)
   \<and> \<not> sorted_wrt (planFactOrder canonCompare)
          (processPlanFactData canonCompare tieTasks tieUsers tieProjects)"
proof -
  have a: "canonCompare ''Abe'' ''Zed'' < 0"
    by (simp add: canonCompare_def)
  have r: "map projectName (processPlanFactData canonCompare tieTasks tieUsers tieProjects)
       = [[CHR 0xC3, CHR 0xA9], [CHR 0xC3, CHR 0xA9],
          [CHR 0x65, CHR 0xCC, CHR 0x81], [CHR 0x65, CHR 0xCC, CHR 0x81]]"
    and u: "map userName (processPlanFactData canonCompare tieTasks tieUsers tieProjects)
       = [''Zed'', ''Zed'', ''Abe'', ''Abe'']"
    unfolding tie_report tie_groups
    by (simp_all add: groupRows_def detailRows_def detailRow_def summaryRow_def)
  have n: "\<not> namesApart canonCompare (processPlanFactData canonCompare tieTasks tieUsers tieProjects)"
    unfolding tie_report tie_groups namesApart_def
    by (simp add: groupRows_def detailRows_def detailRow_def summaryRow_def canonCompare_tie)
  have s: "\<not> sorted_wrt (planFactOrder canonCompare)
          (processPlanFactData canonCompare tieTasks tieUsers tieProjects)"
    unfolding tie_report tie_groups
    by (simp add: groupRows_def detailRows_def detailRow_def summaryRow_def planFactOrder_def
          canonCompare_tie)
  from collationPreorder_canonCompare r canonCompare_tie(1) u a n s show ?thesis by (intro conjI)
qed

subsection \<open>The API access layer\<close>

lemma rateLimitWait_frame:
  "cache (rateLimitWait s) = cache s" "lastCall (rateLimitWait s) = lastCall s"
  "requests (rateLimitWait s) = requests s" "clock s \<le> clock (rateLimitWait s)"
  by (simp_all add: rateLimitWait_def)

lemma tryRequest_failure_frame:
  assumes "tryRequest net key m ps now s = (Inl e, s')"
  shows "cache s' = cache s" "lastCall s' = lastCall s" "clock s \<le> clock s'"
    "requests s' \<le> requests s + 1"
  using assms
  by (auto simp: tryRequest_def Let_def split: sum.splits)

lemma tryRequest_quota:
  assumes "encodeParams ps = Inr q" "quotaFailure (fst (net (requests s) m q))"
  shows "\<exists>e s'. tryRequest net key m ps now s = (Inl e, s')
           \<and> str_includes (message e) ''QUERY_LIMIT_EXCEEDED''
           \<and> requests s' = requests s + 1 \<and> clock s \<le> clock s' \<and> cache s' = cache s"
  using assms
  by (auto simp: tryRequest_def Let_def quotaFailure_def split: sum.splits)

lemma tryRequest_success:
  assumes "encodeParams ps = Inr q" "replyOutcome (fst (net (requests s) m q)) = Inr r"
  shows "\<exists>s'. tryRequest net key m ps now s = (Inr r, s')
           \<and> requests s' = requests s + 1 \<and> clock s \<le> clock s'"
  using assms
  by (auto simp: tryRequest_def Let_def)

lemma cacheLookup_absent: "cache s key = None \<Longrightarrow> cacheLookup key s = None"
  by (simp add: cacheLookup_def)

lemma callMethod_retry:
  assumes "cacheLookup (m @ ''-'' @ str ps) s = None"
    and "tryRequest net (m @ ''-'' @ str ps) m ps (clock s) (rateLimitWait s) = (Inl e, s')"
    and "str_includes (message e) ''QUERY_LIMIT_EXCEEDED''"
  shows "callMethod str net m ps s = callMethod str net m ps (s'\<lparr>clock := clock s' + 2000\<rparr>)"
  using assms by (subst callMethod.simps) simp

lemma callMethod_propagate:
  assumes "cacheLookup (m @ ''-'' @ str ps) s = None"
    and "tryRequest net (m @ ''-'' @ str ps) m ps (clock s) (rateLimitWait s) = (Inl e, s')"
    and "\<not> str_includes (message e) ''QUERY_LIMIT_EXCEEDED''"
  shows "callMethod str net m ps s = Some (Inl e, s')"
  using assms by (subst callMethod.simps) simp

lemma callMethod_failure_frame:
  assumes "callMethod str net m ps s = Some y"
  shows "\<forall>e sf. y = (Inl e, sf) \<longrightarrow>
           cache sf = cache s \<and> lastCall sf = lastCall s
           \<and> \<not> str_includes (message e) ''QUERY_LIMIT_EXCEEDED''"
proof (rule callMethod.raw_induct[OF _ assms,
    where P = "\<lambda>str net m ps s y. \<forall>e sf. y = (Inl e, sf) \<longrightarrow>
           cache sf = cache s \<and> lastCall sf = lastCall s
           \<and> \<not> str_includes (message e) ''QUERY_LIMIT_EXCEEDED''"])
  fix f :: "(params \<Rightarrow> string) \<Rightarrow> network \<Rightarrow> string \<Rightarrow> params \<Rightarrow> svc
              \<Rightarrow> ((apiError + apiResult) \<times> svc) option"
  fix str net m ps s y
  assume IH: "\<And>str net m ps s y. f str net m ps s = Some y \<Longrightarrow>
           \<forall>e sf. y = (Inl e, sf) \<longrightarrow>
             cache sf = cache s \<and> lastCall sf = lastCall s
             \<and> \<not> str_includes (message e) ''QUERY_LIMIT_EXCEEDED''"
  assume eq: "(case cacheLookup (m @ ''-'' @ str ps) s of
        None \<Rightarrow>
          (case tryRequest net (m @ ''-'' @ str ps) m ps (clock s) (rateLimitWait s) of
             (Inl e, s') \<Rightarrow>
               if str_includes (message e) ''QUERY_LIMIT_EXCEEDED''
               then f str net m ps (s'\<lparr>clock := clock s' + 2000\<rparr>)
               else Some (Inl e, s')
           | (Inr result, s') \<Rightarrow> Some (Inr result, s'))
      | Some cached \<Rightarrow> Some (Inr cached, s)) = Some y"
  show "\<forall>e sf. y = (Inl e, sf) \<longrightarrow>
           cache sf = cache s \<and> lastCall sf = lastCall s
           \<and> \<not> str_includes (message e) ''QUERY_LIMIT_EXCEEDED''"
  proof (cases "cacheLookup (m @ ''-'' @ str ps) s")
    case (Some cached)
    with eq show ?thesis by auto
  next
    case None
    obtain out s' where t: "tryRequest net (m @ ''-'' @ str ps) m ps (clock s) (rateLimitWait s) = (out, s')"
      by (cases "tryRequest net (m @ ''-'' @ str ps) m ps (clock s) (rateLimitWait s)") auto
    show ?thesis
    proof (cases out)
      case (Inr r)
      with eq None t show ?thesis by auto
    next
      case (Inl e)
      from tryRequest_failure_frame[OF t[unfolded Inl]]
      have fr: "cache s' = cache s" "lastCall s' = lastCall s"
        by (simp_all add: rateLimitWait_frame)
      show ?thesis
      proof (cases "str_includes (message e) ''QUERY_LIMIT_EXCEEDED''")
        case True
        with eq None t Inl
        have "f str net m ps (s'\<lparr>clock := clock s' + 2000\<rparr>) = Some y" by simp
        from IH[OF this] fr show ?thesis by simp
      next
        case False
        with eq None t Inl fr show ?thesis by auto
      qed
    qed
  qed
qed

lemma callMethod_quota_then_success:
  assumes enc: "encodeParams ps = Inr q"
  shows "cache s (m @ ''-'' @ str ps) = None
     \<Longrightarrow> \<forall>k<n. quotaFailure (fst (net (requests s + k) m q))
     \<Longrightarrow> replyOutcome (fst (net (requests s + n) m q)) = Inr r
     \<Longrightarrow> \<exists>sf. callMethod str net m ps s = Some (Inr r, sf)
            \<and> requests sf = requests s + n + 1 \<and> clock s + 2000 * int n \<le> clock sf"
proof (induction n arbitrary: s)
  case 0
  let ?key = "m @ ''-'' @ str ps"
  have miss: "cacheLookup ?key s = None" using 0(1) by (rule cacheLookup_absent)
  from 0(3) have "replyOutcome (fst (net (requests (rateLimitWait s)) m q)) = Inr r"
    by (simp add: rateLimitWait_frame)
  from tryRequest_success[where net = net and s = "rateLimitWait s" and m = m and q = q
      and ps = ps and r = r and key = ?key and now = "clock s", OF enc this]
  obtain s' where t: "tryRequest net ?key m ps (clock s) (rateLimitWait s) = (Inr r, s')"
    and r: "requests s' = requests (rateLimitWait s) + 1" and c: "clock (rateLimitWait s) \<le> clock s'"
    by blast
  have "callMethod str net m ps s = Some (Inr r, s')"
    using miss t by (subst callMethod.simps) simp
  moreover have "clock s \<le> clock s'" using c rateLimitWait_frame(4)[of s] by linarith
  ultimately show ?case using r by (simp add: rateLimitWait_frame)
next
  case (Suc n)
  let ?key = "m @ ''-'' @ str ps"
  have miss: "cacheLookup ?key s = None" using Suc.prems(1) by (rule cacheLookup_absent)
  from Suc.prems(2) have "quotaFailure (fst (net (requests s + 0) m q))" by blast
  then have "quotaFailure (fst (net (requests (rateLimitWait s)) m q))"
    by (simp add: rateLimitWait_frame)
  from tryRequest_quota[where net = net and s = "rateLimitWait s" and m = m and q = q
      and ps = ps and key = ?key and now = "clock s", OF enc this]
  obtain e s' where t: "tryRequest net ?key m ps (clock s) (rateLimitWait s) = (Inl e, s')"
    and inc: "str_includes (message e) ''QUERY_LIMIT_EXCEEDED''"
    and r: "requests s' = requests (rateLimitWait s) + 1"
    and c: "clock (rateLimitWait s) \<le> clock s'"
    and ch: "cache s' = cache (rateLimitWait s)"
    by blast
  let ?s2 = "s'\<lparr>clock := clock s' + 2000\<rparr>"
  have step: "callMethod str net m ps s = callMethod str net m ps ?s2"
    using miss t inc by (rule callMethod_retry[where str = str and ps = ps])
  have r2: "requests ?s2 = requests s + 1" using r by (simp add: rateLimitWait_frame)
  have c2: "clock s + 2000 \<le> clock ?s2" using c rateLimitWait_frame(4)[of s] by simp
  have p1: "cache ?s2 ?key = None" using ch Suc.prems(1) by (simp add: rateLimitWait_frame)
  have p2: "\<forall>k<n. quotaFailure (fst (net (requests ?s2 + k) m q))"
  proof (intro allI impI)
    fix k assume "k < n"
    then have "Suc k < Suc n" by simp
    with Suc.prems(2) have "quotaFailure (fst (net (requests s + Suc k) m q))" by blast
    then show "quotaFailure (fst (net (requests ?s2 + k) m q))" using r2 by simp
  qed
  have p3: "replyOutcome (fst (net (requests ?s2 + n) m q)) = Inr r"
    using Suc.prems(3) r2 by simp
  from Suc.IH[OF p1 p2 p3]
  obtain sf where "callMethod str net m ps ?s2 = Some (Inr r, sf)"
    "requests sf = requests ?s2 + n + 1" "clock ?s2 + 2000 * int n \<le> clock sf"
    by blast
  with step r2 c2 show ?case by (intro exI[of _ sf]) (simp add: algebra_simps)
qed

lemma callMethod_quota_forever:
  assumes "callMethod str net m ps s = Some y"
  shows "\<forall>q. encodeParams ps = Inr q \<and> cache s (m @ ''-'' @ str ps) = None
           \<and> (\<forall>k. quotaFailure (fst (net (requests s + k) m q))) \<longrightarrow> False"
proof (rule callMethod.raw_induct[OF _ assms,
    where P = "\<lambda>str net m ps s y. \<forall>q. encodeParams ps = Inr q \<and> cache s (m @ ''-'' @ str ps) = None
           \<and> (\<forall>k. quotaFailure (fst (net (requests s + k) m q))) \<longrightarrow> False"])
  fix f :: "(params \<Rightarrow> string) \<Rightarrow> network \<Rightarrow> string \<Rightarrow> params \<Rightarrow> svc
              \<Rightarrow> ((apiError + apiResult) \<times> svc) option"
  fix str net m ps s y
  assume IH: "\<And>str net m ps s y. f str net m ps s = Some y \<Longrightarrow>
           \<forall>q. encodeParams ps = Inr q \<and> cache s (m @ ''-'' @ str ps) = None
             \<and> (\<forall>k. quotaFailure (fst (net (requests s + k) m q))) \<longrightarrow> False"
  assume eq: "(case cacheLookup (m @ ''-'' @ str ps) s of
        None \<Rightarrow>
          (case tryRequest net (m @ ''-'' @ str ps) m ps (clock s) (rateLimitWait s) of
             (Inl e, s') \<Rightarrow>
               if str_includes (message e) ''QUERY_LIMIT_EXCEEDED''
               then f str net m ps (s'\<lparr>clock := clock s' + 2000\<rparr>)
               else Some (Inl e, s')
           | (Inr result, s') \<Rightarrow> Some (Inr result, s'))
      | Some cached \<Rightarrow> Some (Inr cached, s)) = Some y"
  show "\<forall>q. encodeParams ps = Inr q \<and> cache s (m @ ''-'' @ str ps) = None
           \<and> (\<forall>k. quotaFailure (fst (net (requests s + k) m q))) \<longrightarrow> False"
  proof (intro allI impI)
    fix q
    let ?key = "m @ ''-'' @ str ps"
    assume h: "encodeParams ps = Inr q \<and> cache s ?key = None
           \<and> (\<forall>k. quotaFailure (fst (net (requests s + k) m q)))"
    then have enc: "encodeParams ps = Inr q" by blast
    from h have miss: "cacheLookup ?key s = None" by (simp add: cacheLookup_absent)
    from h have "quotaFailure (fst (net (requests s + 0) m q))" by blast
    then have "quotaFailure (fst (net (requests (rateLimitWait s)) m q))"
      by (simp add: rateLimitWait_frame)
    from tryRequest_quota[where net = net and s = "rateLimitWait s" and m = m and q = q
      and ps = ps and key = ?key and now = "clock s", OF enc this]
    obtain e s' where t: "tryRequest net ?key m ps (clock s) (rateLimitWait s) = (Inl e, s')"
      and inc: "str_includes (message e) ''QUERY_LIMIT_EXCEEDED''"
      and r: "requests s' = requests (rateLimitWait s) + 1"
      and ch: "cache s' = cache (rateLimitWait s)"
      by blast
    let ?s2 = "s'\<lparr>clock := clock s' + 2000\<rparr>"
    from eq miss t inc have "f str net m ps ?s2 = Some y" by simp
    from IH[OF this] have "encodeParams ps = Inr q \<and> cache ?s2 ?key = None
           \<and> (\<forall>k. quotaFailure (fst (net (requests ?s2 + k) m q))) \<longrightarrow> False"
      by blast
    moreover have "cache ?s2 ?key = None" using ch h by (simp add: rateLimitWait_frame)
    moreover have "\<forall>k. quotaFailure (fst (net (requests ?s2 + k) m q))"
    proof
      fix k
      from h have "quotaFailure (fst (net (requests s + Suc k) m q))" by blast
      then show "quotaFailure (fst (net (requests ?s2 + k) m q))"
        using r by (simp add: rateLimitWait_frame)
    qed
    ultimately show False using enc by blast
  qed
qed

text \<open>
  C8.  A call of \<^verbatim>\<open>callMethod\<close> that ends in an error leaves the cache and
  \<^verbatim>\<open>rateLimit.lastCall\<close> as they were, and the message of its error does not name the
  quota.  When the attempt fails with a message that contains \<^verbatim>\<open>QUERY_LIMIT_EXCEEDED\<close>,
  the call is the same call made again two seconds later, with nothing stored; when it
  fails with another message, that error is the result, unchanged.  Retries have no
  ceiling: after any number \<open>n\<close> of quota failures followed by a success the call
  returns the success, having made \<open>n + 1\<close> requests and waited at least two seconds for
  each failure; and when every request fails on the quota the call never returns.
\<close>

theorem callMethod_quota_retry:
  "(callMethod str net m ps s = Some (Inl e, sf) \<longrightarrow>
      cache sf = cache s \<and> lastCall sf = lastCall s
      \<and> \<not> str_includes (message e) ''QUERY_LIMIT_EXCEEDED'')
   \<and> (cacheLookup (m @ ''-'' @ str ps) s = None
       \<and> tryRequest net (m @ ''-'' @ str ps) m ps (clock s) (rateLimitWait s) = (Inl e', s')
       \<and> str_includes (message e') ''QUERY_LIMIT_EXCEEDED'' \<longrightarrow>
         callMethod str net m ps s = callMethod str net m ps (s'\<lparr>clock := clock s' + 2000\<rparr>)
         \<and> cache s' = cache s \<and> lastCall s' = lastCall s)
   \<and> (cacheLookup (m @ ''-'' @ str ps) s = None
       \<and> tryRequest net (m @ ''-'' @ str ps) m ps (clock s) (rateLimitWait s) = (Inl e', s')
       \<and> \<not> str_includes (message e') ''QUERY_LIMIT_EXCEEDED'' \<longrightarrow>
         callMethod str net m ps s = Some (Inl e', s')
         \<and> cache s' = cache s \<and> lastCall s' = lastCall s)
   \<and> (encodeParams ps = Inr q \<and> cache s (m @ ''-'' @ str ps) = None
       \<and> (\<forall>k<n. quotaFailure (fst (net (requests s + k) m q)))
       \<and> replyOutcome (fst (net (requests s + n) m q)) = Inr r \<longrightarrow>
         (\<exists>sf. callMethod str net m ps s = Some (Inr r, sf)
               \<and> requests sf = requests s + n + 1 \<and> clock s + 2000 * int n \<le> clock sf))
   \<and> (encodeParams ps = Inr q \<and> cache s (m @ ''-'' @ str ps) = None
       \<and> (\<forall>k. quotaFailure (fst (net (requests s + k) m q))) \<longrightarrow>
         callMethod str net m ps s = None)"
proof (intro conjI impI)
  assume "callMethod str net m ps s = Some (Inl e, sf)"
  from callMethod_failure_frame[OF this]
  show "cache sf = cache s" "lastCall sf = lastCall s"
    "\<not> str_includes (message e) ''QUERY_LIMIT_EXCEEDED''"
    by simp_all
next
  assume h: "cacheLookup (m @ ''-'' @ str ps) s = None
       \<and> tryRequest net (m @ ''-'' @ str ps) m ps (clock s) (rateLimitWait s) = (Inl e', s')
       \<and> str_includes (message e') ''QUERY_LIMIT_EXCEEDED''"
  then show "callMethod str net m ps s = callMethod str net m ps (s'\<lparr>clock := clock s' + 2000\<rparr>)"
    using callMethod_retry[where str = str and ps = ps and s = s and net = net and m = m
        and e = e' and s' = s']
    by blast
  from h have t: "tryRequest net (m @ ''-'' @ str ps) m ps (clock s) (rateLimitWait s) = (Inl e', s')"
    by blast
  from tryRequest_failure_frame[OF t]
  show "cache s' = cache s" "lastCall s' = lastCall s"
    by (simp_all add: rateLimitWait_frame)
next
  assume h: "cacheLookup (m @ ''-'' @ str ps) s = None
       \<and> tryRequest net (m @ ''-'' @ str ps) m ps (clock s) (rateLimitWait s) = (Inl e', s')
       \<and> \<not> str_includes (message e') ''QUERY_LIMIT_EXCEEDED''"
  then show "callMethod str net m ps s = Some (Inl e', s')"
    using callMethod_propagate[where str = str and ps = ps and s = s and net = net and m = m
        and e = e' and s' = s']
    by blast
  from h have t: "tryRequest net (m @ ''-'' @ str ps) m ps (clock s) (rateLimitWait s) = (Inl e', s')"
    by blast
  from tryRequest_failure_frame[OF t]
  show "cache s' = cache s" "lastCall s' = lastCall s"
    by (simp_all add: rateLimitWait_frame)
next
  assume h: "encodeParams ps = Inr q \<and> cache s (m @ ''-'' @ str ps) = None
       \<and> (\<forall>k<n. quotaFailure (fst (net (requests s + k) m q)))
       \<and> replyOutcome (fst (net (requests s + n) m q)) = Inr r"
  then show "\<exists>sf. callMethod str net m ps s = Some (Inr r, sf)
               \<and> requests sf = requests s + n + 1 \<and> clock s + 2000 * int n \<le> clock sf"
    using callMethod_quota_then_success[where ps = ps and q = q and s = s and m = m
        and str = str and n = n and net = net and r = r]
    by blast
next
  assume h: "encodeParams ps = Inr q \<and> cache s (m @ ''-'' @ str ps) = None
       \<and> (\<forall>k. quotaFailure (fst (net (requests s + k) m q)))"
  show "callMethod str net m ps s = None"
  proof (cases "callMethod str net m ps s")
    case None
    then show ?thesis .
  next
    case (Some y)
    from callMethod_quota_forever[OF Some] h show ?thesis by blast
  qed
qed

theorem callMethod_quota_retry_witness:
  "encodeParams [] = Inr []
   \<and> cache freshSvc (''user.get'' @ ''-'' @ keysOnly []) = None
   \<and> quotaFailure (fst (quotaNet 0 ''user.get'' []))
   \<and> quotaFailure (fst (quotaNet 1 ''user.get'' []))
   \<and> replyOutcome (fst (quotaNet 2 ''user.get'' [])) = Inr OtherResult
   \<and> (\<exists>sf. callMethod keysOnly quotaNet ''user.get'' [] freshSvc = Some (Inr OtherResult, sf)
            \<and> requests sf = 3 \<and> 9000 \<le> clock sf)"
proof -
  have h1: "encodeParams [] = Inr []" by simp
  have h2: "cache freshSvc (''user.get'' @ ''-'' @ keysOnly []) = None"
    by (simp add: freshSvc_def)
  have q0: "quotaFailure (fst (quotaNet 0 ''user.get'' []))"
    and q1: "quotaFailure (fst (quotaNet 1 ''user.get'' []))"
    by (simp_all add: quotaNet_def quotaFailure_def)
  have h3: "\<forall>k<2. quotaFailure (fst (quotaNet (requests freshSvc + k) ''user.get'' []))"
    by (simp add: quotaNet_def quotaFailure_def freshSvc_def)
  have h4: "replyOutcome (fst (quotaNet (requests freshSvc + 2) ''user.get'' [])) = Inr OtherResult"
    by (simp add: quotaNet_def freshSvc_def)
  have h4': "replyOutcome (fst (quotaNet 2 ''user.get'' [])) = Inr OtherResult"
    by (simp add: quotaNet_def)
  from callMethod_quota_retry[where ps = "[]" and q = "[]" and s = freshSvc and m = "''user.get''"
      and str = keysOnly and net = quotaNet and n = 2 and r = OtherResult] h1 h2 h3 h4
  have "\<exists>sf. callMethod keysOnly quotaNet ''user.get'' [] freshSvc = Some (Inr OtherResult, sf)
            \<and> requests sf = requests freshSvc + 2 + 1 \<and> clock freshSvc + 2000 * int 2 \<le> clock sf"
    by blast
  then have "\<exists>sf. callMethod keysOnly quotaNet ''user.get'' [] freshSvc = Some (Inr OtherResult, sf)
            \<and> requests sf = 3 \<and> 9000 \<le> clock sf"
    by (simp add: freshSvc_def numeral_3_eq_3)
  with h1 h2 q0 q1 h4' show ?thesis by blast
qed

lemma tasksRequest_order:
  "map_of (tasksRequest ps start) ''order'' = Some (PObject [(''ID'', StrV ''ASC'')])"
  by (simp add: tasksRequest_def update_conv')

lemma first_page_query:
  "encodeParams (tasksRequest [(''filter'', PObject [(''GROUP_ID'', IntV 10)])] 0) =
     Inr [(''filter[GROUP_ID]'', ''10''), (''start'', ''0''),
          (''select[0]'', ''ID''), (''select[1]'', ''TITLE''), (''select[2]'', ''GROUP_ID''),
          (''select[3]'', ''PARENT_ID''), (''select[4]'', ''RESPONSIBLE_ID''),
          (''select[5]'', ''TIME_ESTIMATE''), (''select[6]'', ''CREATED_DATE''),
          (''select[7]'', ''TIME_SPENT_IN_LOGS''), (''select[8]'', ''STATUS''),
          (''select[9]'', ''CLOSED_DATE''), (''select[10]'', ''DEADLINE'')]"
  by (simp add: tasksRequest_def selectFields_def encodeSelect_def encodeFilter_def
        intToString_def natToString.simps digitChar_def upt_rec)

text \<open>
  C7.  \<^verbatim>\<open>getTasks\<close> puts \<^verbatim>\<open>order: {ID: 'ASC'}\<close> into the parameters of every page
  request, but \<^verbatim>\<open>callMethod\<close> writes nothing into the query for an object parameter
  other than \<^verbatim>\<open>filter\<close>: the query of a page request carries the filter, the offset and
  the field selection, and no ordering.
\<close>

theorem getTasks_order_not_in_query:
  "map_of (tasksRequest ps start) ''order'' = Some (PObject [(''ID'', StrV ''ASC'')])
   \<and> encodeParam ''order'' (PObject obj) = Inr []
   \<and> encodeParams (tasksRequest [(''filter'', PObject [(''GROUP_ID'', IntV 10)])] 0) =
       Inr [(''filter[GROUP_ID]'', ''10''), (''start'', ''0''),
            (''select[0]'', ''ID''), (''select[1]'', ''TITLE''), (''select[2]'', ''GROUP_ID''),
            (''select[3]'', ''PARENT_ID''), (''select[4]'', ''RESPONSIBLE_ID''),
            (''select[5]'', ''TIME_ESTIMATE''), (''select[6]'', ''CREATED_DATE''),
            (''select[7]'', ''TIME_SPENT_IN_LOGS''), (''select[8]'', ''STATUS''),
            (''select[9]'', ''CLOSED_DATE''), (''select[10]'', ''DEADLINE'')]"
  using tasksRequest_order first_page_query by simp

theorem getTasks_order_not_in_query_witness:
  "encodeParam ''order'' (PObject [(''ID'', StrV ''ASC'')]) = Inr []
   \<and> length (projr (encodeParams (tasksRequest [(''filter'', PObject [(''GROUP_ID'', IntV 10)])] 0))) = 13"
  using getTasks_order_not_in_query[of "[]" 0 "[(''ID'', StrV ''ASC'')]"] by simp

subsection \<open>The date range resolver\<close>

lemma moscow_local_date:
  "getFullYear moscowNoon (h_now moscowNoon) = 2024"
  "getMonth moscowNoon (h_now moscowNoon) = 0"
  "getDate moscowNoon (h_now moscowNoon) = 15"
  by code_simp+

lemma moscow_month: "getDateRange moscowNoon ''month'' None None = (''2023-12-31'', ''2024-01-30'')"
  by code_simp

lemma moscow_quarter: "getDateRange moscowNoon ''quarter'' None None = (''2023-12-31'', ''2024-03-30'')"
  by code_simp

lemma utc_month: "getDateRange utcNoon ''month'' None None = (''2024-01-01'', ''2024-01-31'')"
  by code_simp

lemma utc_quarter: "getDateRange utcNoon ''quarter'' None None = (''2024-01-01'', ''2024-03-31'')"
  by code_simp

text \<open>
  C9.  On a host east of UTC the bounds that \<^verbatim>\<open>getDateRange\<close> returns are one day
  early: the bounds are built as local midnights and printed by \<^verbatim>\<open>toISOString\<close>,
  which prints the UTC date.  At noon of 15 January 2024, three hours east of UTC, the
  month runs from 31 December to 30 January and the quarter from 31 December to 30 March;
  on a host at UTC the same local time gives 1 to 31 January and 1 January to 31 March.
\<close>

theorem getDateRange_off_by_one_east_of_utc:
  "getFullYear moscowNoon (h_now moscowNoon) = 2024
   \<and> getMonth moscowNoon (h_now moscowNoon) = 0
   \<and> getDate moscowNoon (h_now moscowNoon) = 15
   \<and> getDateRange moscowNoon ''month'' None None = (''2023-12-31'', ''2024-01-30'')
   \<and> getDateRange moscowNoon ''quarter'' None None = (''2023-12-31'', ''2024-03-30'')
   \<and> getDateRange utcNoon ''month'' None None = (''2024-01-01'', ''2024-01-31'')
   \<and> getDateRange utcNoon ''quarter'' None None = (''2024-01-01'', ''2024-03-31'')"
  by (simp only: moscow_local_date moscow_month moscow_quarter utc_month utc_quarter simp_thms)

theorem getDateRange_off_by_one_east_of_utc_witness:
  "fst (getDateRange moscowNoon ''month'' None None) \<noteq> ''2024-01-01''
   \<and> snd (getDateRange moscowNoon ''month'' None None) \<noteq> ''2024-01-31''"
  using getDateRange_off_by_one_east_of_utc by simp

subsection \<open>Pagination and hour parsing\<close>

lemma startOf_tasksRequest: "startOf (tasksRequest ps start) = start"
  by (simp add: startOf_def tasksRequest_def update_conv')

lemma pagedService_request:
  "pagedService db (tasksRequest ps start) asked
     = Some (Inr (TaskPage (take 50 (drop start db))), asked @ [start])"
  by (simp add: pagedService_def startOf_tasksRequest)

lemma getTasksLoop_last_page:
  assumes "length (take 50 (drop start db)) < 50 \<or> 1000 \<le> start + 50"
  shows "getTasksLoop (pagedService db) ps start acc asked
           = Some (Inr (acc @ take 50 (drop start db)), asked @ [start])"
  using assms by (subst getTasksLoop.simps) (auto simp: pagedService_request)

lemma getTasksLoop_next_page:
  assumes "\<not> length (take 50 (drop start db)) < 50" "start + 50 < 1000"
  shows "getTasksLoop (pagedService db) ps start acc asked
           = getTasksLoop (pagedService db) ps (start + 50) (acc @ take 50 (drop start db))
               (asked @ [start])"
  using assms by (subst getTasksLoop.simps) (simp add: pagedService_request)

lemma getTasksLoop_paged:
  "k < 20 \<Longrightarrow> 50 * k \<le> length db \<Longrightarrow>
   getTasksLoop (pagedService db) ps (50 * k) (take (50 * k) db) asked
     = Some (Inr (take 1000 db),
             asked @ map (\<lambda>j. 50 * j) [k ..< min 20 (length db div 50 + 1)])"
proof (induction "20 - k" arbitrary: k asked)
  case 0
  then show ?case by simp
next
  case (Suc d)
  let ?page = "take 50 (drop (50 * k) db)"
  have app: "take (50 * k) db @ ?page = take (50 * k + 50) db"
    by (simp add: take_add)
  show ?case
  proof (cases "length ?page < 50 \<or> 1000 \<le> 50 * k + 50")
    case True
    have all: "take (50 * k + 50) db = take 1000 db"
    proof (cases "length ?page < 50")
      case True
      then have "length db < 50 * k + 50" by auto
      moreover have "50 * k + 50 \<le> 1000" using Suc.prems(1) by simp
      ultimately show ?thesis by simp
    next
      case False
      with True have "50 * k + 50 = 1000" using Suc.prems(1) by simp
      then show ?thesis by simp
    qed
    have m: "min 20 (length db div 50 + 1) = Suc k"
    proof (cases "length ?page < 50")
      case True
      then have "length db < 50 * k + 50" by auto
      with Suc.prems have "length db div 50 = k" by auto
      with Suc.prems show ?thesis by simp
    next
      case False
      then have "50 * k + 50 \<le> length db" by auto
      then have "k + 1 \<le> length db div 50" by auto
      moreover from False True have "k = 19" using Suc.prems(1) by simp
      ultimately show ?thesis by simp
    qed
    have rng: "[k ..< min 20 (length db div 50 + 1)] = [k]"
      unfolding m by simp
    show ?thesis
      unfolding getTasksLoop_last_page[OF True] app all rng by simp
  next
    case False
    then have full: "\<not> length ?page < 50" and below: "50 * k + 50 < 1000" by auto
    from full have len: "50 * k + 50 \<le> length db" by auto
    then have dv: "k + 1 \<le> length db div 50" by auto
    from below have k1: "k + 1 < 20" by simp
    have d: "d = 20 - (k + 1)" using Suc.hyps(2) by simp
    have l1: "50 * (k + 1) \<le> length db" using len by simp
    have e1: "50 * (k + 1) = 50 * k + 50" by simp
    from Suc.hyps(1)[OF d k1 l1, of "asked @ [50 * k]"]
    have IH: "getTasksLoop (pagedService db) ps (50 * k + 50) (take (50 * k + 50) db) (asked @ [50 * k])
        = Some (Inr (take 1000 db),
                (asked @ [50 * k]) @ map (\<lambda>j. 50 * j) [k + 1 ..< min 20 (length db div 50 + 1)])"
      unfolding e1 .
    have "k < min 20 (length db div 50 + 1)" using dv k1 by simp
    from upt_conv_Cons[OF this]
    have rng: "[k ..< min 20 (length db div 50 + 1)] = k # [k + 1 ..< min 20 (length db div 50 + 1)]"
      by (simp only: Suc_eq_plus1)
    show ?thesis
      unfolding getTasksLoop_next_page[OF full below] app IH rng by simp
  qed
qed

text \<open>
  Against a service that serves a fixed list in pages of 50, the loop of \<^verbatim>\<open>getTasks\<close>
  asks for the offsets 0, 50, 100, ... in turn, stops with the first page of fewer than 50
  tasks or after the page at offset 950, and returns the first 1000 tasks of the list in
  the order of the list; so the result repeats no id when the list repeats none.
\<close>

theorem getTasksLoop_pages:
  "getTasksLoop (pagedService db) ps 0 [] []
     = Some (Inr (take 1000 db), map (\<lambda>j. 50 * j) [0 ..< min 20 (length db div 50 + 1)])
   \<and> (distinct (map t_id db) \<longrightarrow> distinct (map t_id (take 1000 db)))"
proof
  show "getTasksLoop (pagedService db) ps 0 [] []
     = Some (Inr (take 1000 db), map (\<lambda>j. 50 * j) [0 ..< min 20 (length db div 50 + 1)])"
    using getTasksLoop_paged[of 0 db ps "[]"] by simp
  show "distinct (map t_id db) \<longrightarrow> distinct (map t_id (take 1000 db))"
    by (simp add: distinct_take take_map[symmetric])
qed

theorem getTasksLoop_pages_witness:
  "getTasksLoop (pagedService (replicate 120 taskNoUser)) [] 0 [] []
     = Some (Inr (replicate 120 taskNoUser), [0, 50, 100])
   \<and> getTasksLoop (pagedService (replicate 1100 taskNoUser)) [] 0 [] []
     = Some (Inr (replicate 1000 taskNoUser),
             [0, 50, 100, 150, 200, 250, 300, 350, 400, 450, 500, 550, 600, 650, 700, 750, 800,
              850, 900, 950])
   \<and> distinct (map t_id (take 1000 [taskNoUser, taskNoProject]))"
proof -
  have a: "getTasksLoop (pagedService (replicate 120 taskNoUser)) [] 0 [] []
     = Some (Inr (replicate 120 taskNoUser), [0, 50, 100])"
    using getTasksLoop_pages[of "replicate 120 taskNoUser" "[]"] by (simp add: upt_rec)
  have b: "getTasksLoop (pagedService (replicate 1100 taskNoUser)) [] 0 [] []
     = Some (Inr (replicate 1000 taskNoUser),
             [0, 50, 100, 150, 200, 250, 300, 350, 400, 450, 500, 550, 600, 650, 700, 750, 800,
              850, 900, 950])"
    using getTasksLoop_pages[of "replicate 1100 taskNoUser" "[]"] by (simp add: upt_rec)
  have "distinct (map t_id [taskNoUser, taskNoProject])"
    by (simp add: taskNoUser_def taskNoProject_def sampleTask_def)
  with getTasksLoop_pages[of "[taskNoUser, taskNoProject]" "[]"]
  have c: "distinct (map t_id (take 1000 [taskNoUser, taskNoProject]))" by blast
  from a b c show ?thesis by blast
qed

text \<open>
  The derived hours where both report functions agree: a value that is missing, empty or
  zero gives 0 hours, and a value that \<^verbatim>\<open>parseInt\<close> reads gives the seconds read
  divided by 3600 (rounded to binary64 in the ledger, where sums of hours are compared).
  A value that \<^verbatim>\<open>parseInt\<close> cannot read gives 0 in
  \<^verbatim>\<open>processProjectResources\<close>; in \<^verbatim>\<open>processPlanFactData\<close> it gives \<open>NaN\<close> when it
  is truthy.
\<close>

theorem lenient_hours:
  "(\<not> truthy (timeEstimate t) \<longrightarrow> pfPlannedHours t = Num 0 \<and> resPlannedHours t = Num 0)
   \<and> (\<not> truthy (timeSpentInLogs t) \<longrightarrow> pfActualHours t = Num 0 \<and> resActualHours t = Num 0)
   \<and> (truthy (timeEstimate t) \<and> parseInt (timeEstimate t) = Some n \<longrightarrow>
        pfPlannedHours t = Num (round64 (round64 (of_int n) / 3600))
        \<and> resPlannedHours t = Num (of_int n / 3600))
   \<and> (truthy (timeSpentInLogs t) \<and> parseInt (timeSpentInLogs t) = Some n \<longrightarrow>
        pfActualHours t = Num (round64 (round64 (of_int n) / 3600))
        \<and> resActualHours t = Num (of_int n / 3600))
   \<and> (parseInt (timeEstimate t) = None \<longrightarrow> resPlannedHours t = Num 0)
   \<and> (parseInt (timeSpentInLogs t) = None \<longrightarrow> resActualHours t = Num 0)
   \<and> (truthy (timeEstimate t) \<and> parseInt (timeEstimate t) = None \<longrightarrow> pfPlannedHours t = NaN)
   \<and> (truthy (timeSpentInLogs t) \<and> parseInt (timeSpentInLogs t) = None \<longrightarrow> pfActualHours t = NaN)"
  by (simp add: pfPlannedHours_def pfActualHours_def resPlannedHours_def resActualHours_def
        zero_jsnum_def round64_values)

theorem lenient_hours_witness:
  "truthy (timeEstimate (chainTasks ! 0))
   \<and> parseInt (timeEstimate (chainTasks ! 0)) = Some 3600
   \<and> pfPlannedHours (chainTasks ! 0) = Num 1
   \<and> resPlannedHours (chainTasks ! 0) = Num 1
   \<and> \<not> truthy (timeEstimate (chainTasks ! 2))
   \<and> pfPlannedHours (chainTasks ! 2) = Num 0
   \<and> resPlannedHours (chainTasks ! 2) = Num 0"
proof -
  have t0: "truthy (timeEstimate (chainTasks ! 0))"
    and p0: "parseInt (timeEstimate (chainTasks ! 0)) = Some 3600"
    and t2: "\<not> truthy (timeEstimate (chainTasks ! 2))"
    by (simp_all add: chainTasks_def sampleTask_def)
  from lenient_hours[of "chainTasks ! 0" 3600] t0 p0
  have a: "pfPlannedHours (chainTasks ! 0) = Num 1" "resPlannedHours (chainTasks ! 0) = Num 1"
    by (simp_all add: round64_values)
  from lenient_hours[of "chainTasks ! 2" 0] t2
  have b: "pfPlannedHours (chainTasks ! 2) = Num 0" "resPlannedHours (chainTasks ! 2) = Num 0"
    by simp_all
  from t0 p0 t2 a b show ?thesis by blast
qed

end
